theory Spec2Isabelle
  imports Main "HOL-Library.Word" "HOL-Library.Sublist" "HOL-Library.Multiset"
begin

unbundle bit_operations_syntax

section \<open>The audit-and-rollback engine of package audit\<close>

text \<open>
  A shallow embedding of the Go package \<^verbatim>\<open>audit\<close>: the field value universe and
  \<^verbatim>\<open>equals\<close>, the \<^verbatim>\<open>fieldSlice\<close> operations, \<^verbatim>\<open>Auditor\<close> and \<^verbatim>\<open>Signature\<close>,
  the history aggregate \<^verbatim>\<open>AuditableValues\<close> with \<^verbatim>\<open>Audit\<close> and \<^verbatim>\<open>RollbackTo\<close>,
  the query helpers and the two binary codecs.

  Conventions. A Go function that returns \<^verbatim>\<open>(x, err)\<close> returns the same pair here, with
  \<^verbatim>\<open>err\<close> an \<open>error option\<close> (\<open>None\<close> is \<^verbatim>\<open>nil\<close>). A run-time panic is the value
  \<open>Panic\<close> of the type \<open>result\<close>. A method that mutates its receiver returns the new
  receiver next to its result.
\<close>

subsection \<open>Values\<close>

type_synonym byte = "8 word"
type_synonym int64 = "64 word"

text \<open>
  A \<^verbatim>\<open>float64\<close> is its IEEE-754 binary64 bit pattern: sign bit, 11 exponent bits,
  52 fraction bits. Go's \<^verbatim>\<open>==\<close> on floats is the IEEE comparison: a NaN equals nothing,
  and the two zeros are equal.
\<close>

type_synonym float64 = "64 word"

definition float64_isNaN :: "float64 \<Rightarrow> bool" where
  "float64_isNaN w \<longleftrightarrow>
     (w AND 0x7FF0000000000000) = 0x7FF0000000000000 \<and> (w AND 0x000FFFFFFFFFFFFF) \<noteq> 0"

definition float64_isZero :: "float64 \<Rightarrow> bool" where
  "float64_isZero w \<longleftrightarrow> (w AND 0x7FFFFFFFFFFFFFFF) = 0"

definition float64_eq :: "float64 \<Rightarrow> float64 \<Rightarrow> bool" where
  "float64_eq a b \<longleftrightarrow>
     \<not> float64_isNaN a \<and> \<not> float64_isNaN b \<and> (a = b \<or> (float64_isZero a \<and> float64_isZero b))"

text \<open>
  \<^verbatim>\<open>Field.Value\<close> is an \<^verbatim>\<open>interface{}\<close>. The engine knows twelve dynamic types;
  \<open>VOther\<close> stands for a value of any other dynamic type and carries the name that
  \<^verbatim>\<open>%T\<close> prints. \<^verbatim>\<open>magicValue\<close> is an \<^verbatim>\<open>int8\<close>. Go's \<^verbatim>\<open>int\<close> is only stored, compared
  and handed to the I/O layer, never computed with, so it is an \<open>int\<close>. A slice value
  is the list of its elements (nothing in the package tells a nil slice value from an
  empty one).
\<close>

datatype Value =
    VMagic "8 word"
  | VString string
  | VBool bool
  | VInt int
  | VInt64 int64
  | VFloat64 float64
  | VStrings "string list"
  | VBools "bool list"
  | VInts "int list"
  | VInt64s "int64 list"
  | VFloat64s "float64 list"
  | VBytes "byte list"
  | VOther string

definition magicValueHistoryCreation :: "8 word" where
  "magicValueHistoryCreation = 0"

definition magicValueFieldRemoved :: "8 word" where
  "magicValueFieldRemoved = 1"

fun type_name :: "Value \<Rightarrow> string" where
  "type_name (VMagic _) = ''audit.magicValue''"
| "type_name (VString _) = ''string''"
| "type_name (VBool _) = ''bool''"
| "type_name (VInt _) = ''int''"
| "type_name (VInt64 _) = ''int64''"
| "type_name (VFloat64 _) = ''float64''"
| "type_name (VStrings _) = ''[]string''"
| "type_name (VBools _) = ''[]bool''"
| "type_name (VInts _) = ''[]int''"
| "type_name (VInt64s _) = ''[]int64''"
| "type_name (VFloat64s _) = ''[]float64''"
| "type_name (VBytes _) = ''[]uint8''"
| "type_name (VOther T) = T"

datatype 'a result = Return 'a | Panic string

text \<open>
  The slice cases of \<^verbatim>\<open>equals\<close>: unequal lengths give false, then the loop returns
  false at the first index whose elements differ under \<^verbatim>\<open>!=\<close>.
\<close>

fun slice_equal :: "('a \<Rightarrow> 'a \<Rightarrow> bool) \<Rightarrow> 'a list \<Rightarrow> 'a list \<Rightarrow> bool" where
  "slice_equal eq [] [] = True"
| "slice_equal eq (x # xs) (y # ys) = (if \<not> eq x y then False else slice_equal eq xs ys)"
| "slice_equal eq _ _ = False"

text \<open>
  \<^verbatim>\<open>equals\<close> switches on the dynamic type of its first argument; each case asserts the
  same type on the second (\<^verbatim>\<open>v2, ok := value2.(T)\<close>). The default case panics, and
  \<^verbatim>\<open>magicValue\<close> has no case of its own.
\<close>

fun equals :: "Value \<Rightarrow> Value \<Rightarrow> bool result" where
  "equals (VString v1) value2 =
     Return (case value2 of VString v2 \<Rightarrow> v1 = v2 | _ \<Rightarrow> False)"
| "equals (VBool v1) value2 =
     Return (case value2 of VBool v2 \<Rightarrow> v1 = v2 | _ \<Rightarrow> False)"
| "equals (VInt v1) value2 =
     Return (case value2 of VInt v2 \<Rightarrow> v1 = v2 | _ \<Rightarrow> False)"
| "equals (VInt64 v1) value2 =
     Return (case value2 of VInt64 v2 \<Rightarrow> v1 = v2 | _ \<Rightarrow> False)"
| "equals (VFloat64 v1) value2 =
     Return (case value2 of VFloat64 v2 \<Rightarrow> float64_eq v1 v2 | _ \<Rightarrow> False)"
| "equals (VStrings v1) value2 =
     Return (case value2 of VStrings v2 \<Rightarrow> slice_equal (=) v1 v2 | _ \<Rightarrow> False)"
| "equals (VBools v1) value2 =
     Return (case value2 of VBools v2 \<Rightarrow> slice_equal (=) v1 v2 | _ \<Rightarrow> False)"
| "equals (VInts v1) value2 =
     Return (case value2 of VInts v2 \<Rightarrow> slice_equal (=) v1 v2 | _ \<Rightarrow> False)"
| "equals (VInt64s v1) value2 =
     Return (case value2 of VInt64s v2 \<Rightarrow> slice_equal (=) v1 v2 | _ \<Rightarrow> False)"
| "equals (VFloat64s v1) value2 =
     Return (case value2 of VFloat64s v2 \<Rightarrow> slice_equal float64_eq v1 v2 | _ \<Rightarrow> False)"
| "equals (VBytes v1) value2 =
     Return (case value2 of VBytes v2 \<Rightarrow> slice_equal (=) v1 v2 | _ \<Rightarrow> False)"
| "equals value1 value2 = Panic (''Unsupported value type: '' @ type_name value1)"

subsection \<open>Fields and field slices\<close>

record Field =
  Name :: string
  Value :: Value

text \<open>
  The methods of \<^verbatim>\<open>fieldSlice\<close> on the elements of a slice. \<^verbatim>\<open>IndexOf\<close> returns the
  first index whose field has the name, or -1.
\<close>

fun IndexOf_from :: "nat \<Rightarrow> Field list \<Rightarrow> string \<Rightarrow> int" where
  "IndexOf_from i [] name = -1"
| "IndexOf_from i (field # s) name =
     (if Name field = name then int i else IndexOf_from (Suc i) s name)"

definition IndexOf :: "Field list \<Rightarrow> string \<Rightarrow> int" where
  "IndexOf s name = IndexOf_from 0 s name"

definition Contains :: "Field list \<Rightarrow> string \<Rightarrow> bool" where
  "Contains s name \<longleftrightarrow> IndexOf s name \<noteq> -1"

text \<open>\<^verbatim>\<open>TryGet\<close> returns \<^verbatim>\<open>(field, true)\<close> as \<open>Some field\<close> and \<^verbatim>\<open>(Field{}, false)\<close> as \<open>None\<close>.\<close>

fun TryGet :: "Field list \<Rightarrow> string \<Rightarrow> Field option" where
  "TryGet [] name = None"
| "TryGet (field # s) name = (if Name field = name then Some field else TryGet s name)"

text \<open>\<^verbatim>\<open>Remove\<close> swaps the found element with the last one and drops the last.\<close>

definition Remove :: "Field list \<Rightarrow> string \<Rightarrow> Field list" where
  "Remove s name =
     (let index = IndexOf s name in
      if index = -1 then s
      else butlast (s[nat index := last s]))"

definition Set :: "Field list \<Rightarrow> string \<Rightarrow> Value \<Rightarrow> Field list" where
  "Set s name v =
     (let field = \<lparr>Name = name, Value = v\<rparr>; index = IndexOf s name in
      if index = -1 then s @ [field]
      else s[nat index := field])"

text \<open>
  A \<^verbatim>\<open>fieldSlice\<close> variable can be nil, and \<^verbatim>\<open>getHistoryFields\<close> tests for it: a slice
  is \<open>None\<close> when nil, \<open>Some\<close> of its elements otherwise. Appending to nil allocates;
  \<^verbatim>\<open>Remove\<close> on nil finds nothing and leaves nil.
\<close>

type_synonym fieldSlice = "Field list option"

definition elems :: "fieldSlice \<Rightarrow> Field list" where
  "elems s = (case s of None \<Rightarrow> [] | Some xs \<Rightarrow> xs)"

definition slice_Remove :: "fieldSlice \<Rightarrow> string \<Rightarrow> fieldSlice" where
  "slice_Remove s name = map_option (\<lambda>xs. Remove xs name) s"

definition slice_Set :: "fieldSlice \<Rightarrow> string \<Rightarrow> Value \<Rightarrow> fieldSlice" where
  "slice_Set s name v = Some (Set (elems s) name v)"

text \<open>The methods of \<^verbatim>\<open>stringSlice\<close>.\<close>

fun strings_IndexOf_from :: "nat \<Rightarrow> string list \<Rightarrow> string \<Rightarrow> int" where
  "strings_IndexOf_from i [] s = -1"
| "strings_IndexOf_from i (x # xs) s =
     (if x = s then int i else strings_IndexOf_from (Suc i) xs s)"

definition strings_IndexOf :: "string list \<Rightarrow> string \<Rightarrow> int" where
  "strings_IndexOf xs s = strings_IndexOf_from 0 xs s"

fun strings_Contains :: "string list \<Rightarrow> string \<Rightarrow> bool" where
  "strings_Contains [] s = False"
| "strings_Contains (x # xs) s = (if x = s then True else strings_Contains xs s)"

subsection \<open>Time, auditors, signatures\<close>

text \<open>
  A \<^verbatim>\<open>time.Time\<close> is an instant, counted in nanoseconds from the Unix epoch, and the
  offset in seconds of its zone. \<^verbatim>\<open>Before\<close>, \<^verbatim>\<open>After\<close> and \<^verbatim>\<open>IsZero\<close> look at the
  instant only. The zero \<^verbatim>\<open>Time\<close> is January 1 of year 1, 00:00 UTC.
\<close>

record Time =
  nanos :: int
  offset :: int

definition days_from_civil :: "int \<Rightarrow> int \<Rightarrow> int \<Rightarrow> int" where
  "days_from_civil y m d =
     (let y' = (if m \<le> 2 then y - 1 else y);
          era = y' div 400;
          yoe = y' - era * 400;
          doy = (153 * (if m > 2 then m - 3 else m + 9) + 2) div 5 + d - 1;
          doe = yoe * 365 + yoe div 4 - yoe div 100 + doy
      in era * 146097 + doe - 719468)"

text \<open>\<^verbatim>\<open>time.Date(year, month, day, hour, min, sec, nsec, time.UTC)\<close> for arguments in range.\<close>

definition Date :: "int \<Rightarrow> int \<Rightarrow> int \<Rightarrow> int \<Rightarrow> int \<Rightarrow> int \<Rightarrow> int \<Rightarrow> Time" where
  "Date year month day hour minute sec nsec =
     \<lparr>nanos = (((days_from_civil year month day * 24 + hour) * 60 + minute) * 60 + sec)
                 * 1000000000 + nsec,
      offset = 0\<rparr>"

definition Time_zero :: Time where
  "Time_zero = Date 1 1 1 0 0 0 0"

definition Time_IsZero :: "Time \<Rightarrow> bool" where
  "Time_IsZero t \<longleftrightarrow> nanos t = nanos Time_zero"

definition Before :: "Time \<Rightarrow> Time \<Rightarrow> bool" where
  "Before t u \<longleftrightarrow> nanos t < nanos u"

definition After :: "Time \<Rightarrow> Time \<Rightarrow> bool" where
  "After t u \<longleftrightarrow> nanos t > nanos u"

text \<open>\<^verbatim>\<open>UnixNano\<close> computes in \<^verbatim>\<open>int64\<close> and wraps outside its range.\<close>

definition UnixNano :: "Time \<Rightarrow> int64" where
  "UnixNano t = word_of_int (nanos t)"

text \<open>\<^verbatim>\<open>time.Unix(0, nsec).In(time.UTC)\<close>.\<close>

definition Unix_UTC :: "int64 \<Rightarrow> Time" where
  "Unix_UTC nsec = \<lparr>nanos = sint nsec, offset = 0\<rparr>"

record Auditor =
  kind :: string
  id' :: string

definition Auditor_zero :: Auditor where
  "Auditor_zero = \<lparr>kind = '''', id' = ''''\<rparr>"

definition Encode :: "Auditor \<Rightarrow> string" where
  "Encode auditor = kind auditor @ ''/'' @ id' auditor"

record Signature =
  auditor :: Auditor
  timestamp :: Time

definition Signature_zero :: Signature where
  "Signature_zero = \<lparr>auditor = Auditor_zero, timestamp = Time_zero\<rparr>"

subsection \<open>Errors\<close>

text \<open>
  An error made by \<^verbatim>\<open>fmt.Errorf\<close> is its format string and its arguments. The package
  variable \<^verbatim>\<open>ErrDidNotExist\<close> is one error value that callers compare by identity, so
  it has a constructor of its own. \<open>ExternalError\<close> is an error that comes from outside
  the package: from an object's \<^verbatim>\<open>GetFields\<close> or \<^verbatim>\<open>SetFields\<close>, or from the I/O layer.
\<close>

datatype error =
    Errorf string "fmtarg list"
  | ErrDidNotExist
  | ExternalError string
and fmtarg =
    ArgTime Time
  | ArgInt int
  | ArgByte byte
  | ArgInt64 int64
  | ArgString string
  | ArgValue Value
  | ArgError error

fun error_format :: "error \<Rightarrow> string" where
  "error_format (Errorf format args) = format"
| "error_format ErrDidNotExist = ''the object did not exist at the given time''"
| "error_format (ExternalError msg) = msg"

subsection \<open>The history and its queries\<close>

record auditHistory =
  fields' :: "Field list"
  signature :: Signature

text \<open>\<^verbatim>\<open>AuditableValues\<close> is a struct of one field, the slice \<^verbatim>\<open>history\<close>.\<close>

type_synonym AuditableValues = "auditHistory list"

definition addHistory :: "AuditableValues \<Rightarrow> Signature \<Rightarrow> Field list \<Rightarrow> AuditableValues" where
  "addHistory values sig fs = values @ [\<lparr>fields' = fs, signature = sig\<rparr>]"

definition IsZero :: "AuditableValues \<Rightarrow> bool" where
  "IsZero values \<longleftrightarrow> length values = 0"

definition CreationSignature :: "AuditableValues \<Rightarrow> Signature" where
  "CreationSignature values =
     (case values of [] \<Rightarrow> Signature_zero | h # _ \<Rightarrow> signature h)"

definition LatestSignature :: "AuditableValues \<Rightarrow> Signature" where
  "LatestSignature values =
     (if length values = 0 then Signature_zero else signature (last values))"

definition Signatures :: "AuditableValues \<Rightarrow> Signature list" where
  "Signatures values = map signature values"

text \<open>The inner loops of the two field queries: is there a field of this name?\<close>

fun mentions :: "Field list \<Rightarrow> string \<Rightarrow> bool" where
  "mentions [] fieldName = False"
| "mentions (field # fs) fieldName =
     (if Name field = fieldName then True else mentions fs fieldName)"

text \<open>\<^verbatim>\<open>for i := len(values.history) - 1; i > 0; i--\<close>, entered with \<open>i = len - 1\<close>.\<close>

fun LatestSignatureForField_loop :: "AuditableValues \<Rightarrow> string \<Rightarrow> nat \<Rightarrow> Signature" where
  "LatestSignatureForField_loop values fieldName 0 = CreationSignature values"
| "LatestSignatureForField_loop values fieldName (Suc i) =
     (if mentions (fields' (values ! Suc i)) fieldName then signature (values ! Suc i)
      else LatestSignatureForField_loop values fieldName i)"

definition LatestSignatureForField :: "AuditableValues \<Rightarrow> string \<Rightarrow> Signature" where
  "LatestSignatureForField values fieldName =
     LatestSignatureForField_loop values fieldName (length values - 1)"

text \<open>
  \<^verbatim>\<open>SignaturesForField\<close> starts from the creation signature and ranges over the whole
  history, the entry at index 0 included.
\<close>

fun SignaturesForField_loop :: "Signature list \<Rightarrow> AuditableValues \<Rightarrow> string \<Rightarrow> Signature list" where
  "SignaturesForField_loop signatures [] fieldName = signatures"
| "SignaturesForField_loop signatures (h # rest) fieldName =
     SignaturesForField_loop
       (if mentions (fields' h) fieldName then signatures @ [signature h] else signatures)
       rest fieldName"

definition SignaturesForField :: "AuditableValues \<Rightarrow> string \<Rightarrow> Signature list" where
  "SignaturesForField values fieldName =
     SignaturesForField_loop [CreationSignature values] values fieldName"

subsection \<open>Auditable objects\<close>

text \<open>
  \<^verbatim>\<open>AuditableObject\<close> is an interface that callers implement. An object here is what
  the test suite's \<^verbatim>\<open>auditableObject\<close> is, a field slice and a rollback time, plus the
  errors its two methods return (the interface lets both fail). \<^verbatim>\<open>GetFields\<close> returns
  the stored slice, the rollback time and the error; \<^verbatim>\<open>SetFields\<close> replaces the fields
  and the rollback time unless it fails.
\<close>

record AuditableObject =
  obj_fields :: fieldSlice
  obj_tRollback :: Time
  obj_getErr :: "error option"
  obj_setErr :: "error option"

definition GetFields :: "AuditableObject \<Rightarrow> fieldSlice \<times> Time \<times> error option" where
  "GetFields obj = (obj_fields obj, obj_tRollback obj, obj_getErr obj)"

definition SetFields :: "AuditableObject \<Rightarrow> fieldSlice \<Rightarrow> Time \<Rightarrow> error option \<times> AuditableObject" where
  "SetFields obj fs tRollback =
     (case obj_setErr obj of
        Some err \<Rightarrow> (Some err, obj)
      | None \<Rightarrow> (None, obj\<lparr>obj_fields := fs, obj_tRollback := tRollback\<rparr>))"

subsection \<open>Audit\<close>

text \<open>
  The second loop of \<^verbatim>\<open>getHistoryFields\<close>, over the new fields: one pass that appends
  the old field where the value differs and the removal marker where the name is new.
  \<^verbatim>\<open>equals\<close> can panic; the panic leaves the loop.
\<close>

fun added_or_updated :: "Field list \<Rightarrow> Field list \<Rightarrow> Field list \<Rightarrow> Field list result" where
  "added_or_updated oldFields history [] = Return history"
| "added_or_updated oldFields history (newField # rest) =
     (case TryGet oldFields (Name newField) of
        Some oldField \<Rightarrow>
          (case equals (Value oldField) (Value newField) of
             Panic msg \<Rightarrow> Panic msg
           | Return eq \<Rightarrow>
               added_or_updated oldFields
                 (if \<not> eq then history @ [oldField] else history) rest)
      | None \<Rightarrow>
          added_or_updated oldFields
            (history @ [\<lparr>Name = Name newField, Value = VMagic magicValueFieldRemoved\<rparr>]) rest)"

text \<open>The first loop: the old fields whose name the new slice does not contain.\<close>

fun removed_fields :: "Field list \<Rightarrow> Field list \<Rightarrow> Field list \<Rightarrow> Field list" where
  "removed_fields newFields history [] = history"
| "removed_fields newFields history (field # rest) =
     removed_fields newFields
       (if \<not> Contains newFields (Name field) then history @ [field] else history) rest"

text \<open>The error that \<^verbatim>\<open>getHistoryFields\<close> returns is always nil; the model leaves it out.\<close>

definition getHistoryFields :: "fieldSlice \<Rightarrow> fieldSlice \<Rightarrow> Field list result" where
  "getHistoryFields oldFields newFields =
     (case oldFields of
        None \<Rightarrow> Return [\<lparr>Name = '''', Value = VMagic magicValueHistoryCreation\<rparr>]
      | Some old \<Rightarrow>
          added_or_updated old (removed_fields (elems newFields) [] old) (elems newFields))"

text \<open>
  \<^verbatim>\<open>Audit\<close> returns \<^verbatim>\<open>(changed, err)\<close> or panics, and the history after the call.
  \<^verbatim>\<open>oldObj\<close> and \<^verbatim>\<open>newObj\<close> are interface values and can be nil; calling
  \<^verbatim>\<open>GetFields\<close> on a nil \<^verbatim>\<open>newObj\<close> panics.
\<close>

definition Audit ::
  "AuditableValues \<Rightarrow> AuditableObject option \<Rightarrow> AuditableObject option \<Rightarrow> Signature
     \<Rightarrow> (bool \<times> error option) result \<times> AuditableValues" where
  "Audit values oldObj newObj sig =
     (if length values > 0 \<and> oldObj = None then
        (Return (False, Some (Errorf
           ''oldObj cannot be nil when there is an audit history. Only allowed on initial audit'' [])),
         values)
      else if length values > 0 \<and> \<not> After (timestamp sig) (timestamp (signature (last values))) then
        (Return (False, Some (Errorf
           ''invalid signature timestamp: must be after latest audit timestamp (signature: %v, latest audit: %v)''
           [ArgTime (timestamp sig), ArgTime (timestamp (signature (last values)))])),
         values)
      else
        (case (case oldObj of
                 None \<Rightarrow> (None, Time_zero, None)
               | Some obj \<Rightarrow> GetFields obj) of
           (oldFields, tRollback, err) \<Rightarrow>
             if err \<noteq> None then (Return (False, err), values)
             else if \<not> Time_IsZero tRollback then
               (Return (False, Some (Errorf ''cannot audit based on a rolled back object'' [])), values)
             else
               (case newObj of
                  None \<Rightarrow> (Panic ''invalid memory address or nil pointer dereference'', values)
                | Some new \<Rightarrow>
                    (case GetFields new of
                       (newFields, tRollback, err) \<Rightarrow>
                         if err \<noteq> None then (Return (False, err), values)
                         else if \<not> Time_IsZero tRollback then
                           (Return (False, Some (Errorf ''cannot audit based on a rolled back object'' [])),
                            values)
                         else
                           (case getHistoryFields oldFields newFields of
                              Panic msg \<Rightarrow> (Panic msg, values)
                            | Return changedFields \<Rightarrow>
                                if length changedFields = 0 then (Return (False, None), values)
                                else (Return (True, None), addHistory values sig changedFields))))))"

subsection \<open>Rollback\<close>

text \<open>The body of the innermost loop: undo one stored field on the current slice.\<close>

definition undo_field :: "fieldSlice \<Rightarrow> Field \<Rightarrow> fieldSlice" where
  "undo_field currentFields field =
     (if Value field = VMagic magicValueFieldRemoved then slice_Remove currentFields (Name field)
      else slice_Set currentFields (Name field) (Value field))"

fun undo_fields :: "fieldSlice \<Rightarrow> Field list \<Rightarrow> fieldSlice" where
  "undo_fields currentFields [] = currentFields"
| "undo_fields currentFields (field # rest) = undo_fields (undo_field currentFields field) rest"

text \<open>
  \<^verbatim>\<open>for i := len(values.history) - 1; i > 0; i--\<close>: the last argument but one is \<open>i\<close>.
  The entry at index 0 is never visited.
\<close>

fun RollbackTo_loop ::
  "AuditableValues \<Rightarrow> bool \<Rightarrow> Time \<Rightarrow> Time \<Rightarrow> nat \<Rightarrow> fieldSlice \<Rightarrow> fieldSlice" where
  "RollbackTo_loop values isRolledBack tRollback t 0 currentFields = currentFields"
| "RollbackTo_loop values isRolledBack tRollback t (Suc i) currentFields =
     (let history = values ! Suc i;
          tHistory = timestamp (signature history)
      in RollbackTo_loop values isRolledBack tRollback t i
           (if isRolledBack \<and> After tHistory tRollback then currentFields
            else if \<not> After tHistory t then currentFields
            else undo_fields currentFields (fields' history)))"

definition RollbackTo ::
  "AuditableValues \<Rightarrow> AuditableObject \<Rightarrow> Time \<Rightarrow> error option \<times> AuditableObject" where
  "RollbackTo values obj t =
     (if length values = 0 then (Some (Errorf ''invalid state: empty history'' []), obj)
      else if Before t (timestamp (signature (hd values))) then (Some ErrDidNotExist, obj)
      else
        (case GetFields obj of
           (currentFields, tRollback, err) \<Rightarrow>
             (case err of
                Some e \<Rightarrow> (Some (Errorf ''error rolling back object: %w'' [ArgError e]), obj)
              | None \<Rightarrow>
                  let isRolledBack = \<not> Time_IsZero tRollback in
                  if isRolledBack \<and> Before tRollback t then
                    (Some (Errorf
                       ''object is already rolled back to a timestamp earlier than t (tRollback: %s, t: %s)''
                       [ArgTime tRollback, ArgTime t]), obj)
                  else
                    SetFields obj
                      (RollbackTo_loop values isRolledBack tRollback t (length values - 1) currentFields)
                      t)))"

subsection \<open>The I/O layer\<close>

text \<open>
  The codecs write and read through \<^verbatim>\<open>github.com/snechholt/bufrw\<close>, which is not part
  of this package. Its primitives are parameters of the model: a writer primitive takes
  the value and the stream and returns the error and the stream after it; a reader
  primitive takes the stream and returns the value, the error and the stream after it.
  \<^verbatim>\<open>bufrw.Writer\<close>, \<^verbatim>\<open>bufrw.Reader\<close> and the \<^verbatim>\<open>bufrw.Buffer\<close> methods that take the
  \<^verbatim>\<open>io.Writer\<close> or \<^verbatim>\<open>io.Reader\<close> are the same primitives on the same stream.
\<close>

record 's Writer =
  WriteByteValue :: "byte \<Rightarrow> 's \<Rightarrow> error option \<times> 's"
  WriteInt :: "int \<Rightarrow> 's \<Rightarrow> error option \<times> 's"
  WriteString :: "string \<Rightarrow> 's \<Rightarrow> error option \<times> 's"
  WriteBool :: "bool \<Rightarrow> 's \<Rightarrow> error option \<times> 's"
  WriteInt64 :: "int64 \<Rightarrow> 's \<Rightarrow> error option \<times> 's"
  WriteFloat64 :: "float64 \<Rightarrow> 's \<Rightarrow> error option \<times> 's"
  WriteStrings :: "string list \<Rightarrow> 's \<Rightarrow> error option \<times> 's"
  WriteBools :: "bool list \<Rightarrow> 's \<Rightarrow> error option \<times> 's"
  WriteInts :: "int list \<Rightarrow> 's \<Rightarrow> error option \<times> 's"
  WriteInt64s :: "int64 list \<Rightarrow> 's \<Rightarrow> error option \<times> 's"
  WriteFloat64s :: "float64 list \<Rightarrow> 's \<Rightarrow> error option \<times> 's"
  WriteByteValues :: "byte list \<Rightarrow> 's \<Rightarrow> error option \<times> 's"

record 's Reader =
  ReadByteValue :: "'s \<Rightarrow> byte \<times> error option \<times> 's"
  ReadInt :: "'s \<Rightarrow> int \<times> error option \<times> 's"
  ReadString :: "'s \<Rightarrow> string \<times> error option \<times> 's"
  ReadBool :: "'s \<Rightarrow> bool \<times> error option \<times> 's"
  ReadInt64 :: "'s \<Rightarrow> int64 \<times> error option \<times> 's"
  ReadFloat64 :: "'s \<Rightarrow> float64 \<times> error option \<times> 's"
  ReadStrings :: "'s \<Rightarrow> string list \<times> error option \<times> 's"
  ReadBools :: "'s \<Rightarrow> bool list \<times> error option \<times> 's"
  ReadInts :: "'s \<Rightarrow> int list \<times> error option \<times> 's"
  ReadInt64s :: "'s \<Rightarrow> int64 list \<times> error option \<times> 's"
  ReadFloat64s :: "'s \<Rightarrow> float64 list \<times> error option \<times> 's"
  ReadByteValues :: "'s \<Rightarrow> byte list \<times> error option \<times> 's"

text \<open>\<^verbatim>\<open>if err := step; err != nil { return err }\<close>, then the rest.\<close>

definition and_then :: "error option \<times> 's \<Rightarrow> ('s \<Rightarrow> error option \<times> 's) \<Rightarrow> error option \<times> 's" where
  "and_then r rest = (case r of (Some err, s) \<Rightarrow> (Some err, s) | (None, s) \<Rightarrow> rest s)"

text \<open>
  \<^verbatim>\<open>if err := first; err == nil { err = second }\<close> inside the type switch of
  \<^verbatim>\<open>SerializeTo\<close>: the \<^verbatim>\<open>:=\<close> declares a new \<^verbatim>\<open>err\<close>, so neither error reaches the
  \<^verbatim>\<open>err\<close> that is tested after the switch.
\<close>

definition shadowed :: "error option \<times> 's \<Rightarrow> ('s \<Rightarrow> error option \<times> 's) \<Rightarrow> error option \<times> 's" where
  "shadowed r second = (case r of (Some err, s) \<Rightarrow> (None, s) | (None, s) \<Rightarrow> (None, snd (second s)))"

subsection \<open>The signature codec\<close>

definition minAllowed :: Time where
  "minAllowed = Date 1970 1 1 0 0 0 1"

definition maxAllowed :: Time where
  "maxAllowed = Date 2200 1 1 0 0 0 0"

text \<open>The name of the zone is not modelled; \<open>ArgString\<close> of the empty string stands for it.\<close>

definition SerializeToBufRW :: "'s Writer \<Rightarrow> Signature \<Rightarrow> 's \<Rightarrow> error option \<times> 's" where
  "SerializeToBufRW W sig s =
     (if offset (timestamp sig) \<noteq> 0 then
        (Some (Errorf ''invalid signature timestamp: must be in zone with offset = 0, was %s (%d)''
           [ArgString '''', ArgInt (offset (timestamp sig))]), s)
      else
        and_then (WriteInt W 1 s) (\<lambda>s.
        and_then (WriteString W (Encode (auditor sig)) s) (\<lambda>s.
          let t = timestamp sig in
          if \<not> Time_IsZero t \<and> (Before t minAllowed \<or> After t maxAllowed) then
            (Some (Errorf ''signature timestamp %s is out of bounds'' [ArgTime (timestamp sig)]), s)
          else
            WriteInt64 W (if \<not> Time_IsZero t then UnixNano t else 0) s)))"

text \<open>\<^verbatim>\<open>strings.Split(src, "/")\<close>: the parts between the separators, at least one part.\<close>

fun split_on :: "char \<Rightarrow> string \<Rightarrow> string \<Rightarrow> string list" where
  "split_on sep part [] = [part]"
| "split_on sep part (c # cs) =
     (if c = sep then part # split_on sep [] cs else split_on sep (part @ [c]) cs)"

definition Split :: "string \<Rightarrow> char \<Rightarrow> string list" where
  "Split src sep = split_on sep [] src"

definition Decode :: "Auditor \<Rightarrow> string \<Rightarrow> error option \<times> Auditor" where
  "Decode a src =
     (let split = Split src CHR ''/'' in
      if length split \<noteq> 2 then (Some (Errorf ''invalid encoded actor: %s'' [ArgString src]), a)
      else (None, \<lparr>kind = split ! 0, id' = split ! 1\<rparr>))"

text \<open>The result is the error, the receiver after the call and the stream.\<close>

definition DeserializeFromBufRW ::
  "'s Reader \<Rightarrow> Signature \<Rightarrow> 's \<Rightarrow> error option \<times> Signature \<times> 's" where
  "DeserializeFromBufRW R sig s =
     (case ReadInt R s of
        (version, Some err, s) \<Rightarrow> (Some err, sig, s)
      | (version, None, s) \<Rightarrow>
          if version \<noteq> 1 then
            (Some (Errorf ''unsupported version number: %d'' [ArgInt version]), sig, s)
          else
            (case ReadString R s of
               (auditorString, Some err, s) \<Rightarrow> (Some err, sig, s)
             | (auditorString, None, s) \<Rightarrow>
                 (case Decode Auditor_zero auditorString of
                    (Some err, a) \<Rightarrow> (Some err, sig, s)
                  | (None, a) \<Rightarrow>
                      (case ReadInt64 R s of
                         (unixNano, Some err, s) \<Rightarrow> (Some err, sig, s)
                       | (unixNano, None, s) \<Rightarrow>
                           if unixNano <s 0 then
                             (Some (Errorf ''invalid unix nano value found: %d'' [ArgInt64 unixNano]),
                              sig, s)
                           else
                             (None,
                              \<lparr>auditor = a,
                               timestamp = (if 0 <s unixNano then Unix_UTC unixNano else Time_zero)\<rparr>,
                              s)))))"

subsection \<open>The history codec: writing\<close>

text \<open>The pre-scan that interns the field names: a name is appended when it is not there yet.\<close>

fun intern_fields :: "string list \<Rightarrow> Field list \<Rightarrow> string list" where
  "intern_fields fieldNames [] = fieldNames"
| "intern_fields fieldNames (field # rest) =
     intern_fields
       (if \<not> strings_Contains fieldNames (Name field) then fieldNames @ [Name field]
        else fieldNames) rest"

fun intern_history :: "string list \<Rightarrow> AuditableValues \<Rightarrow> string list" where
  "intern_history fieldNames [] = fieldNames"
| "intern_history fieldNames (obj # rest) =
     intern_history (intern_fields fieldNames (fields' obj)) rest"

fun write_names :: "'s Writer \<Rightarrow> string list \<Rightarrow> 's \<Rightarrow> error option \<times> 's" where
  "write_names W [] s = (None, s)"
| "write_names W (key # rest) s = and_then (WriteString W key s) (write_names W rest)"

text \<open>The type switch on \<^verbatim>\<open>field.Value\<close>: the tag byte, then the payload.\<close>

fun write_value :: "'s Writer \<Rightarrow> Value \<Rightarrow> 's \<Rightarrow> error option \<times> 's" where
  "write_value W (VMagic v) s = and_then (WriteByteValue W 0 s) (WriteByteValue W v)"
| "write_value W (VString v) s = and_then (WriteByteValue W 1 s) (WriteString W v)"
| "write_value W (VBool v) s = shadowed (WriteByteValue W 2 s) (WriteBool W v)"
| "write_value W (VInt v) s = and_then (WriteByteValue W 3 s) (WriteInt W v)"
| "write_value W (VInt64 v) s = and_then (WriteByteValue W 4 s) (WriteInt64 W v)"
| "write_value W (VFloat64 v) s = and_then (WriteByteValue W 5 s) (WriteFloat64 W v)"
| "write_value W (VStrings v) s = shadowed (WriteByteValue W 6 s) (WriteStrings W v)"
| "write_value W (VBools v) s = shadowed (WriteByteValue W 7 s) (WriteBools W v)"
| "write_value W (VInts v) s = shadowed (WriteByteValue W 8 s) (WriteInts W v)"
| "write_value W (VInt64s v) s = shadowed (WriteByteValue W 9 s) (WriteInt64s W v)"
| "write_value W (VFloat64s v) s = shadowed (WriteByteValue W 10 s) (WriteFloat64s W v)"
| "write_value W (VBytes v) s = shadowed (WriteByteValue W 11 s) (WriteByteValues W v)"
| "write_value W (VOther T) s =
     (Some (Errorf ''cannot serialize value of type %T'' [ArgValue (VOther T)]), s)"

fun write_fields :: "'s Writer \<Rightarrow> string list \<Rightarrow> Field list \<Rightarrow> 's \<Rightarrow> error option \<times> 's" where
  "write_fields W fieldNames [] s = (None, s)"
| "write_fields W fieldNames (field # rest) s =
     and_then (WriteInt W (strings_IndexOf fieldNames (Name field)) s) (\<lambda>s.
     and_then (write_value W (Value field) s) (write_fields W fieldNames rest))"

text \<open>
  \<^verbatim>\<open>WriteSerializable(&obj.signature)\<close> hands the stream to the signature's own
  \<^verbatim>\<open>SerializeToBufRW\<close>.
\<close>

fun write_history :: "'s Writer \<Rightarrow> string list \<Rightarrow> AuditableValues \<Rightarrow> 's \<Rightarrow> error option \<times> 's" where
  "write_history W fieldNames [] s = (None, s)"
| "write_history W fieldNames (obj # rest) s =
     and_then (SerializeToBufRW W (signature obj) s) (\<lambda>s.
     and_then (WriteInt W (int (length (fields' obj))) s) (\<lambda>s.
     and_then (write_fields W fieldNames (fields' obj) s) (write_history W fieldNames rest)))"

definition SerializeTo :: "'s Writer \<Rightarrow> AuditableValues \<Rightarrow> 's \<Rightarrow> error option \<times> 's" where
  "SerializeTo W values s =
     and_then (WriteByteValue W 1 s) (\<lambda>s.
       let fieldNames = intern_history [] values in
       and_then (WriteInt W (int (length fieldNames)) s) (\<lambda>s.
       and_then (write_names W fieldNames s) (\<lambda>s.
       and_then (WriteInt W (int (length values)) s) (write_history W fieldNames values))))"

subsection \<open>The history codec: reading\<close>

fun read_names :: "'s Reader \<Rightarrow> nat \<Rightarrow> string list \<Rightarrow> 's \<Rightarrow> string list \<times> error option \<times> 's" where
  "read_names R 0 fieldNames s = (fieldNames, None, s)"
| "read_names R (Suc n) fieldNames s =
     (case ReadString R s of
        (key, Some err, s) \<Rightarrow> (fieldNames, Some err, s)
      | (key, None, s) \<Rightarrow> read_names R n (fieldNames @ [key]) s)"

text \<open>
  The switch on the type tag. The error of the read of the tag itself is not tested
  before the switch: in case 0 it is still there after the switch, in cases 1 to 11 the
  payload read overwrites it, in the default case the new error does. The value that
  comes with an error is never used.
\<close>

definition read_value :: "'s Reader \<Rightarrow> 's \<Rightarrow> Value \<times> error option \<times> 's" where
  "read_value R s =
     (case ReadByteValue R s of (valueType, err, s) \<Rightarrow>
        if valueType = 0 then
          (case ReadByteValue R s of
             (v, Some err', s) \<Rightarrow> (VMagic v, Some err', s)
           | (v, None, s) \<Rightarrow> (VMagic v, err, s))
        else if valueType = 1 then (case ReadString R s of (v, err, s) \<Rightarrow> (VString v, err, s))
        else if valueType = 2 then (case ReadBool R s of (v, err, s) \<Rightarrow> (VBool v, err, s))
        else if valueType = 3 then (case ReadInt R s of (v, err, s) \<Rightarrow> (VInt v, err, s))
        else if valueType = 4 then (case ReadInt64 R s of (v, err, s) \<Rightarrow> (VInt64 v, err, s))
        else if valueType = 5 then (case ReadFloat64 R s of (v, err, s) \<Rightarrow> (VFloat64 v, err, s))
        else if valueType = 6 then (case ReadStrings R s of (v, err, s) \<Rightarrow> (VStrings v, err, s))
        else if valueType = 7 then (case ReadBools R s of (v, err, s) \<Rightarrow> (VBools v, err, s))
        else if valueType = 8 then (case ReadInts R s of (v, err, s) \<Rightarrow> (VInts v, err, s))
        else if valueType = 9 then (case ReadInt64s R s of (v, err, s) \<Rightarrow> (VInt64s v, err, s))
        else if valueType = 10 then (case ReadFloat64s R s of (v, err, s) \<Rightarrow> (VFloat64s v, err, s))
        else if valueType = 11 then (case ReadByteValues R s of (v, err, s) \<Rightarrow> (VBytes v, err, s))
        else (VOther ''nil'', Some (Errorf ''invalid value type: %d'' [ArgByte valueType]), s))"

text \<open>
  The loop over the fields of one entry. \<^verbatim>\<open>fieldNames[nameIndex]\<close> is an indexing
  with no test of the index before it: out of range, the run-time panics.
\<close>

fun read_fields ::
  "'s Reader \<Rightarrow> string list \<Rightarrow> nat \<Rightarrow> Field list \<Rightarrow> 's \<Rightarrow> (Field list \<times> error option) result \<times> 's" where
  "read_fields R fieldNames 0 fs s = (Return (fs, None), s)"
| "read_fields R fieldNames (Suc n) fs s =
     (case ReadInt R s of
        (nameIndex, Some err, s) \<Rightarrow> (Return (fs, Some err), s)
      | (nameIndex, None, s) \<Rightarrow>
          if nameIndex < 0 \<or> nameIndex \<ge> int (length fieldNames) then
            (Panic ''index out of range'', s)
          else
            (case read_value R s of
               (v, Some err, s) \<Rightarrow> (Return (fs, Some err), s)
             | (v, None, s) \<Rightarrow>
                 read_fields R fieldNames n
                   (fs @ [\<lparr>Name = fieldNames ! nat nameIndex, Value = v\<rparr>]) s))"

text \<open>
  The loop over the entries; the second result is the entries stored so far.
  \<^verbatim>\<open>make(fieldSlice, nFields)\<close> panics on a negative length.
\<close>

fun read_history ::
  "'s Reader \<Rightarrow> string list \<Rightarrow> nat \<Rightarrow> AuditableValues \<Rightarrow> 's
     \<Rightarrow> error option result \<times> AuditableValues \<times> 's" where
  "read_history R fieldNames 0 done s = (Return None, done, s)"
| "read_history R fieldNames (Suc n) done s =
     (case DeserializeFromBufRW R Signature_zero s of
        (Some err, sig, s) \<Rightarrow> (Return (Some err), done, s)
      | (None, sig, s) \<Rightarrow>
          (case ReadInt R s of
             (nFields, Some err, s) \<Rightarrow> (Return (Some err), done, s)
           | (nFields, None, s) \<Rightarrow>
               if nFields < 0 then (Panic ''makeslice: len out of range'', done, s)
               else
                 (case read_fields R fieldNames (nat nFields) [] s of
                    (Panic msg, s) \<Rightarrow> (Panic msg, done, s)
                  | (Return (fs, Some err), s) \<Rightarrow> (Return (Some err), done, s)
                  | (Return (fs, None), s) \<Rightarrow>
                      read_history R fieldNames n (done @ [\<lparr>fields' = fs, signature = sig\<rparr>]) s)))"

text \<open>
  \<^verbatim>\<open>DeserializeFrom\<close> returns the error or panics, and the receiver after the call.
  \<^verbatim>\<open>values.history\<close> is replaced by a slice of \<^verbatim>\<open>nHistory\<close> zero entries before the
  loop, so a failure inside the loop leaves the entries read so far and zero entries.
\<close>

definition zero_entry :: auditHistory where
  "zero_entry = \<lparr>fields' = [], signature = Signature_zero\<rparr>"

definition DeserializeFrom ::
  "'s Reader \<Rightarrow> AuditableValues \<Rightarrow> 's \<Rightarrow> error option result \<times> AuditableValues" where
  "DeserializeFrom R values s =
     (case ReadByteValue R s of
        (version, Some err, s) \<Rightarrow> (Return (Some err), values)
      | (version, None, s) \<Rightarrow>
          if version \<noteq> 1 then
            (Return (Some (Errorf ''invalid version number: %d'' [ArgByte version])), values)
          else
            (case ReadInt R s of
               (nFieldNames, Some err, s) \<Rightarrow> (Return (Some err), values)
             | (nFieldNames, None, s) \<Rightarrow>
                 if nFieldNames < 0 then (Panic ''makeslice: len out of range'', values)
                 else
                   (case read_names R (nat nFieldNames) [] s of
                      (fieldNames, Some err, s) \<Rightarrow> (Return (Some err), values)
                    | (fieldNames, None, s) \<Rightarrow>
                        (case ReadInt R s of
                           (nHistory, Some err, s) \<Rightarrow> (Return (Some err), values)
                         | (nHistory, None, s) \<Rightarrow>
                             if nHistory < 0 then (Panic ''makeslice: len out of range'', values)
                             else
                               (case read_history R fieldNames (nat nHistory) [] s of
                                  (r, done, s) \<Rightarrow>
                                    (r, done @ replicate (nat nHistory - length done) zero_entry))))))"

subsection \<open>Serialize and Deserialize on a byte buffer\<close>

text \<open>
  \<^verbatim>\<open>Serialize\<close> writes into a fresh \<^verbatim>\<open>bytes.Buffer\<close>, whose writes append and never
  fail, and returns the bytes. The wire format of each primitive is the layer's, so it is
  a parameter: twelve encoders into a list of stream elements.
\<close>

record 'b Encoding =
  encByteValue :: "byte \<Rightarrow> 'b list"
  encInt :: "int \<Rightarrow> 'b list"
  encString :: "string \<Rightarrow> 'b list"
  encBool :: "bool \<Rightarrow> 'b list"
  encInt64 :: "int64 \<Rightarrow> 'b list"
  encFloat64 :: "float64 \<Rightarrow> 'b list"
  encStrings :: "string list \<Rightarrow> 'b list"
  encBools :: "bool list \<Rightarrow> 'b list"
  encInts :: "int list \<Rightarrow> 'b list"
  encInt64s :: "int64 list \<Rightarrow> 'b list"
  encFloat64s :: "float64 list \<Rightarrow> 'b list"
  encByteValues :: "byte list \<Rightarrow> 'b list"

definition append_to :: "('a \<Rightarrow> 'b list) \<Rightarrow> 'a \<Rightarrow> 'b list \<Rightarrow> error option \<times> 'b list" where
  "append_to enc v out = (None, out @ enc v)"

definition buffer_writer :: "'b Encoding \<Rightarrow> 'b list Writer" where
  "buffer_writer E =
     \<lparr>WriteByteValue = append_to (encByteValue E),
      WriteInt = append_to (encInt E),
      WriteString = append_to (encString E),
      WriteBool = append_to (encBool E),
      WriteInt64 = append_to (encInt64 E),
      WriteFloat64 = append_to (encFloat64 E),
      WriteStrings = append_to (encStrings E),
      WriteBools = append_to (encBools E),
      WriteInts = append_to (encInts E),
      WriteInt64s = append_to (encInt64s E),
      WriteFloat64s = append_to (encFloat64s E),
      WriteByteValues = append_to (encByteValues E)\<rparr>"

definition Serialize :: "'b Encoding \<Rightarrow> AuditableValues \<Rightarrow> 'b list \<times> error option" where
  "Serialize E values =
     (case SerializeTo (buffer_writer E) values [] of
        (Some err, b) \<Rightarrow> ([], Some err)
      | (None, b) \<Rightarrow> (b, None))"

definition Signature_Serialize :: "'b Encoding \<Rightarrow> Signature \<Rightarrow> 'b list \<times> error option" where
  "Signature_Serialize E sig =
     (case SerializeToBufRW (buffer_writer E) sig [] of
        (Some err, b) \<Rightarrow> ([], Some err)
      | (None, b) \<Rightarrow> (b, None))"

definition Deserialize ::
  "'b list Reader \<Rightarrow> AuditableValues \<Rightarrow> 'b list \<Rightarrow> error option result \<times> AuditableValues" where
  "Deserialize R values b = DeserializeFrom R values b"

subsection \<open>Values for concrete runs\<close>

definition NewSignature :: "Auditor \<Rightarrow> Time \<Rightarrow> Signature" where
  "NewSignature a t = \<lparr>auditor = a, timestamp = t\<rparr>"

text \<open>The UTC time \<open>n\<close> nanoseconds after the Unix epoch, and a signature of the zero auditor at it.\<close>

definition at_nanos :: "int \<Rightarrow> Time" where
  "at_nanos n = \<lparr>nanos = n, offset = 0\<rparr>"

definition sig_at :: "int \<Rightarrow> Signature" where
  "sig_at n = NewSignature Auditor_zero (at_nanos n)"

definition creation_entry :: "Signature \<Rightarrow> auditHistory" where
  "creation_entry sig =
     \<lparr>fields' = [\<lparr>Name = '''', Value = VMagic magicValueHistoryCreation\<rparr>], signature = sig\<rparr>"

text \<open>An object that is not rolled back and whose methods succeed.\<close>

definition live_object :: "fieldSlice \<Rightarrow> AuditableObject" where
  "live_object fs = \<lparr>obj_fields = fs, obj_tRollback = Time_zero, obj_getErr = None, obj_setErr = None\<rparr>"

text \<open>A history with a value of every shape, after the serialization test of the package.\<close>

definition example_history :: AuditableValues where
  "example_history =
     [creation_entry (NewSignature \<lparr>kind = ''kind'', id' = ''id''\<rparr> (Date 2000 1 2 0 1 0 0)),
      \<lparr>fields' =
         [\<lparr>Name = ''field0'', Value = VMagic magicValueFieldRemoved\<rparr>,
          \<lparr>Name = ''field1'', Value = VString ''abc''\<rparr>,
          \<lparr>Name = ''field2'', Value = VBool True\<rparr>,
          \<lparr>Name = ''field3'', Value = VInt (-1)\<rparr>,
          \<lparr>Name = ''field4'', Value = VInt64 1\<rparr>,
          \<lparr>Name = ''field5'', Value = VFloat64 0xBFF8000000000000\<rparr>],
       signature = NewSignature \<lparr>kind = ''kind'', id' = ''''\<rparr> (Date 2000 1 3 0 2 0 0)\<rparr>,
      \<lparr>fields' =
         [\<lparr>Name = ''field1'', Value = VStrings [''abc'', ''def'']\<rparr>,
          \<lparr>Name = ''field0'', Value = VBools [True, False]\<rparr>,
          \<lparr>Name = ''field6'', Value = VInts [-1, 0, 1]\<rparr>,
          \<lparr>Name = ''field3'', Value = VInt64s [1, 2, 3]\<rparr>,
          \<lparr>Name = ''field4'', Value = VFloat64s [0xBFF8000000000000, 0]\<rparr>,
          \<lparr>Name = ''field5'', Value = VBytes [1, 2]\<rparr>],
       signature = NewSignature Auditor_zero Time_zero\<rparr>]"

subsection \<open>A stream of tagged items\<close>

text \<open>
  One instance of the I/O layer, to run the codecs on concrete streams: every primitive
  writes one item that carries its value, and a read fails on an item of another kind
  and at the end of the stream.
\<close>

datatype item =
    IByte byte
  | IInt int
  | IString string
  | IBool bool
  | IInt64 int64
  | IFloat64 float64
  | IStrings "string list"
  | IBools "bool list"
  | IInts "int list"
  | IInt64s "int64 list"
  | IFloat64s "float64 list"
  | IBytes "byte list"

definition item_encoding :: "item Encoding" where
  "item_encoding =
     \<lparr>encByteValue = (\<lambda>v. [IByte v]),
      encInt = (\<lambda>v. [IInt v]),
      encString = (\<lambda>v. [IString v]),
      encBool = (\<lambda>v. [IBool v]),
      encInt64 = (\<lambda>v. [IInt64 v]),
      encFloat64 = (\<lambda>v. [IFloat64 v]),
      encStrings = (\<lambda>v. [IStrings v]),
      encBools = (\<lambda>v. [IBools v]),
      encInts = (\<lambda>v. [IInts v]),
      encInt64s = (\<lambda>v. [IInt64s v]),
      encFloat64s = (\<lambda>v. [IFloat64s v]),
      encByteValues = (\<lambda>v. [IBytes v])\<rparr>"

definition unexpected :: "error option" where
  "unexpected = Some (ExternalError ''unexpected input'')"

definition item_reader :: "item list Reader" where
  "item_reader =
     \<lparr>ReadByteValue = (\<lambda>s. case s of IByte v # rest \<Rightarrow> (v, None, rest) | _ \<Rightarrow> (0, unexpected, s)),
      ReadInt = (\<lambda>s. case s of IInt v # rest \<Rightarrow> (v, None, rest) | _ \<Rightarrow> (0, unexpected, s)),
      ReadString = (\<lambda>s. case s of IString v # rest \<Rightarrow> (v, None, rest) | _ \<Rightarrow> ('''', unexpected, s)),
      ReadBool = (\<lambda>s. case s of IBool v # rest \<Rightarrow> (v, None, rest) | _ \<Rightarrow> (False, unexpected, s)),
      ReadInt64 = (\<lambda>s. case s of IInt64 v # rest \<Rightarrow> (v, None, rest) | _ \<Rightarrow> (0, unexpected, s)),
      ReadFloat64 = (\<lambda>s. case s of IFloat64 v # rest \<Rightarrow> (v, None, rest) | _ \<Rightarrow> (0, unexpected, s)),
      ReadStrings = (\<lambda>s. case s of IStrings v # rest \<Rightarrow> (v, None, rest) | _ \<Rightarrow> ([], unexpected, s)),
      ReadBools = (\<lambda>s. case s of IBools v # rest \<Rightarrow> (v, None, rest) | _ \<Rightarrow> ([], unexpected, s)),
      ReadInts = (\<lambda>s. case s of IInts v # rest \<Rightarrow> (v, None, rest) | _ \<Rightarrow> ([], unexpected, s)),
      ReadInt64s = (\<lambda>s. case s of IInt64s v # rest \<Rightarrow> (v, None, rest) | _ \<Rightarrow> ([], unexpected, s)),
      ReadFloat64s = (\<lambda>s. case s of IFloat64s v # rest \<Rightarrow> (v, None, rest) | _ \<Rightarrow> ([], unexpected, s)),
      ReadByteValues = (\<lambda>s. case s of IBytes v # rest \<Rightarrow> (v, None, rest) | _ \<Rightarrow> ([], unexpected, s))\<rparr>"

subsection \<open>The reverse-delta as the specification words it\<close>

text \<open>
  The specification gives the reverse-delta of old fields \<open>O\<close> and new fields \<open>N\<close> as three
  groups one after the other: the fields of \<open>O\<close> whose name \<open>N\<close> lacks; for the fields of
  \<open>N\<close> whose name is in \<open>O\<close> with another value, the old field; for the fields of \<open>N\<close> whose
  name \<open>O\<close> lacks, the removal marker.
\<close>

definition removed_group :: "Field list \<Rightarrow> Field list \<Rightarrow> Field list" where
  "removed_group O' N = filter (\<lambda>field. \<not> Contains N (Name field)) O'"

definition changed_entry :: "Field list \<Rightarrow> Field \<Rightarrow> Field list" where
  "changed_entry O' newField =
     (case TryGet O' (Name newField) of
        Some oldField \<Rightarrow>
          if equals (Value oldField) (Value newField) = Return False then [oldField] else []
      | None \<Rightarrow> [])"

definition added_entry :: "Field list \<Rightarrow> Field \<Rightarrow> Field list" where
  "added_entry O' newField =
     (case TryGet O' (Name newField) of
        Some oldField \<Rightarrow> []
      | None \<Rightarrow> [\<lparr>Name = Name newField, Value = VMagic magicValueFieldRemoved\<rparr>])"

definition spec_reverse_delta :: "Field list \<Rightarrow> Field list \<Rightarrow> Field list" where
  "spec_reverse_delta O' N =
     removed_group O' N @ concat (map (changed_entry O') N) @ concat (map (added_entry O') N)"

text \<open>The same entries with the second and third group in one pass over \<open>N\<close>.\<close>

definition one_pass_reverse_delta :: "Field list \<Rightarrow> Field list \<Rightarrow> Field list" where
  "one_pass_reverse_delta O' N =
     removed_group O' N @ concat (map (\<lambda>newField. changed_entry O' newField @ added_entry O' newField) N)"

text \<open>The eleven dynamic types that \<^verbatim>\<open>equals\<close> has a case for.\<close>

fun comparable :: "Value \<Rightarrow> bool" where
  "comparable (VMagic v) = False"
| "comparable (VOther T) = False"
| "comparable v = True"

subsection \<open>The wire format as the specification frames it\<close>

text \<open>
  The history stream of the specification: the version byte 1, the number of names, the
  names, the number of entries, and for each entry its signature, the number of its
  fields, and for each field the index of its name, the type tag and the payload. The
  signature is the version 1, the encoded auditor and one 64-bit integer, 0 for the zero
  time and \<^verbatim>\<open>UnixNano\<close> otherwise. Each element is written in the layer's encoding \<open>E\<close>.
\<close>

fun wire_value :: "'b Encoding \<Rightarrow> Value \<Rightarrow> 'b list" where
  "wire_value E (VMagic v) = encByteValue E 0 @ encByteValue E v"
| "wire_value E (VString v) = encByteValue E 1 @ encString E v"
| "wire_value E (VBool v) = encByteValue E 2 @ encBool E v"
| "wire_value E (VInt v) = encByteValue E 3 @ encInt E v"
| "wire_value E (VInt64 v) = encByteValue E 4 @ encInt64 E v"
| "wire_value E (VFloat64 v) = encByteValue E 5 @ encFloat64 E v"
| "wire_value E (VStrings v) = encByteValue E 6 @ encStrings E v"
| "wire_value E (VBools v) = encByteValue E 7 @ encBools E v"
| "wire_value E (VInts v) = encByteValue E 8 @ encInts E v"
| "wire_value E (VInt64s v) = encByteValue E 9 @ encInt64s E v"
| "wire_value E (VFloat64s v) = encByteValue E 10 @ encFloat64s E v"
| "wire_value E (VBytes v) = encByteValue E 11 @ encByteValues E v"
| "wire_value E (VOther T) = []"

definition wire_field :: "'b Encoding \<Rightarrow> string list \<Rightarrow> Field \<Rightarrow> 'b list" where
  "wire_field E names field =
     encInt E (strings_IndexOf names (Name field)) @ wire_value E (Value field)"

definition wire_signature :: "'b Encoding \<Rightarrow> Signature \<Rightarrow> 'b list" where
  "wire_signature E sig =
     encInt E 1 @ encString E (Encode (auditor sig))
       @ encInt64 E (if Time_IsZero (timestamp sig) then 0 else UnixNano (timestamp sig))"

definition wire_entry :: "'b Encoding \<Rightarrow> string list \<Rightarrow> auditHistory \<Rightarrow> 'b list" where
  "wire_entry E names h =
     wire_signature E (signature h) @ encInt E (int (length (fields' h)))
       @ concat (map (wire_field E names) (fields' h))"

text \<open>The field names of a history in the order of their occurrence, repeats included.\<close>

definition field_names :: "AuditableValues \<Rightarrow> string list" where
  "field_names values = concat (map (\<lambda>h. map Name (fields' h)) values)"

text \<open>Each element once, at the place of its first occurrence.\<close>

definition first_occurrences :: "'a list \<Rightarrow> 'a list" where
  "first_occurrences xs = rev (remdups (rev xs))"

definition wire_history :: "'b Encoding \<Rightarrow> AuditableValues \<Rightarrow> 'b list" where
  "wire_history E values =
     (let names = first_occurrences (field_names values) in
      encByteValue E 1 @ encInt E (int (length names)) @ concat (map (encString E) names)
        @ encInt E (int (length values)) @ concat (map (wire_entry E names) values))"

text \<open>A reader that decodes what the encoding writes, whatever follows in the stream.\<close>

definition decodes :: "'b list Reader \<Rightarrow> 'b Encoding \<Rightarrow> bool" where
  "decodes R E \<longleftrightarrow>
     (\<forall>v rest. ReadByteValue R (encByteValue E v @ rest) = (v, None, rest))
     \<and> (\<forall>v rest. ReadInt R (encInt E v @ rest) = (v, None, rest))
     \<and> (\<forall>v rest. ReadString R (encString E v @ rest) = (v, None, rest))
     \<and> (\<forall>v rest. ReadBool R (encBool E v @ rest) = (v, None, rest))
     \<and> (\<forall>v rest. ReadInt64 R (encInt64 E v @ rest) = (v, None, rest))
     \<and> (\<forall>v rest. ReadFloat64 R (encFloat64 E v @ rest) = (v, None, rest))
     \<and> (\<forall>v rest. ReadStrings R (encStrings E v @ rest) = (v, None, rest))
     \<and> (\<forall>v rest. ReadBools R (encBools E v @ rest) = (v, None, rest))
     \<and> (\<forall>v rest. ReadInts R (encInts E v @ rest) = (v, None, rest))
     \<and> (\<forall>v rest. ReadInt64s R (encInt64s E v @ rest) = (v, None, rest))
     \<and> (\<forall>v rest. ReadFloat64s R (encFloat64s E v @ rest) = (v, None, rest))
     \<and> (\<forall>v rest. ReadByteValues R (encByteValues E v @ rest) = (v, None, rest))"

text \<open>The twelve shapes the codec has a tag for.\<close>

fun serializable_value :: "Value \<Rightarrow> bool" where
  "serializable_value (VOther T) = False"
| "serializable_value v = True"

text \<open>
  \<^verbatim>\<open>NewSignature\<close> takes any auditor and time. \<^verbatim>\<open>NewAuditor\<close> panics on a slash in the
  kind or the id, and the fields of \<^verbatim>\<open>Auditor\<close> are not exported, so an auditor made
  outside the package has none.
\<close>

definition valid_auditor :: "Auditor \<Rightarrow> bool" where
  "valid_auditor a \<longleftrightarrow> CHR ''/'' \<notin> set (kind a) \<and> CHR ''/'' \<notin> set (id' a)"

definition serializable_signature :: "Signature \<Rightarrow> bool" where
  "serializable_signature sig \<longleftrightarrow>
     valid_auditor (auditor sig) \<and> offset (timestamp sig) = 0
     \<and> (Time_IsZero (timestamp sig)
         \<or> (\<not> Before (timestamp sig) minAllowed \<and> \<not> After (timestamp sig) maxAllowed))"

definition serializable_history :: "AuditableValues \<Rightarrow> bool" where
  "serializable_history values \<longleftrightarrow>
     list_all (\<lambda>h. serializable_signature (signature h)
                  \<and> list_all (\<lambda>field. serializable_value (Value field)) (fields' h)) values"

subsection \<open>Audited states\<close>

text \<open>
  Two values are the same when they are identical or \<^verbatim>\<open>equals\<close> finds them equal (it
  finds the two float zeros equal). The mapping of a slice gives each name the value of
  the first field of that name. Two slices have the same mapping when they agree, up
  to this sameness, on every name that occurs in either.
\<close>

definition same_value :: "Value \<Rightarrow> Value \<Rightarrow> bool" where
  "same_value a b \<longleftrightarrow> a = b \<or> equals a b = Return True"

definition lookup :: "Field list \<Rightarrow> string \<Rightarrow> Value option" where
  "lookup fs name = map_option Value (TryGet fs name)"

definition same_mapping :: "Field list \<Rightarrow> Field list \<Rightarrow> bool" where
  "same_mapping xs ys \<longleftrightarrow>
     list_all (\<lambda>f. rel_option same_value (lookup xs (Name f)) (lookup ys (Name f))) (xs @ ys)"

fun is_magic :: "Value \<Rightarrow> bool" where
  "is_magic (VMagic v) = True"
| "is_magic v = False"

text \<open>
  The state of a live object: names are unique within a slice, and no value is a
  \<^verbatim>\<open>magicValue\<close> (the type is not exported, so no object outside the package holds one).
\<close>

definition wellformed_state :: "Field list \<Rightarrow> bool" where
  "wellformed_state fs \<longleftrightarrow> distinct (map Name fs) \<and> list_all (\<lambda>f. \<not> is_magic (Value f)) fs"

text \<open>
  A run of audits: the creation audit of a first state, then update audits. A step of
  the run is a signature, the fields of the old object and the fields of the new object;
  both objects are live and return non-nil slices, and the old object holds the state
  that the previous audit saw as new. Every call has to return a nil error. Next to the
  history the run keeps, for every entry appended, the timestamp of the entry and the
  state audited by it, and the latest state audited.
\<close>

type_synonym snapshot = "Time \<times> Field list"

fun update_run ::
  "AuditableValues \<Rightarrow> snapshot list \<Rightarrow> Field list \<Rightarrow> (Signature \<times> Field list \<times> Field list) list
     \<Rightarrow> (AuditableValues \<times> snapshot list \<times> Field list) option" where
  "update_run h snaps cur [] = Some (h, snaps, cur)"
| "update_run h snaps cur ((sig, old, new) # rest) =
     (if same_mapping old cur \<and> wellformed_state old \<and> wellformed_state new then
        (case Audit h (Some (live_object (Some old))) (Some (live_object (Some new))) sig of
           (Return (True, None), h') \<Rightarrow> update_run h' (snaps @ [(timestamp sig, new)]) new rest
         | (Return (False, None), h') \<Rightarrow> update_run h' snaps new rest
         | _ \<Rightarrow> None)
      else None)"

definition audited_run ::
  "Signature \<Rightarrow> Field list \<Rightarrow> (Signature \<times> Field list \<times> Field list) list
     \<Rightarrow> (AuditableValues \<times> snapshot list \<times> Field list) option" where
  "audited_run sig0 s0 steps =
     (if wellformed_state s0 then
        (case Audit [] None (Some (live_object (Some s0))) sig0 of
           (Return (True, None), h) \<Rightarrow> update_run h [(timestamp sig0, s0)] s0 steps
         | _ \<Rightarrow> None)
      else None)"

text \<open>The audited state at time \<open>t\<close>: the state of the latest entry whose timestamp is not after \<open>t\<close>.\<close>

fun state_at :: "snapshot list \<Rightarrow> Time \<Rightarrow> Field list option" where
  "state_at [] t = None"
| "state_at ((ts, s) # rest) t =
     (case state_at rest t of
        Some s' \<Rightarrow> Some s'
      | None \<Rightarrow> if \<not> After ts t then Some s else None)"

text \<open>
  What every run keeps true, with \<open>ts0\<close> the creation timestamp: the history is not empty
  and begins at \<open>ts0\<close>; the snapshots carry the timestamps of the entries, which increase
  strictly; the latest state is well formed; and the loop of \<^verbatim>\<open>RollbackTo\<close>, started on
  a live slice with the mapping of the latest state, ends for every target time not
  before \<open>ts0\<close> in a slice with the mapping of the state audited at that time.
\<close>

definition run_invariant :: "Time \<Rightarrow> AuditableValues \<Rightarrow> snapshot list \<Rightarrow> Field list \<Rightarrow> bool" where
  "run_invariant ts0 h snaps cur \<longleftrightarrow>
     h \<noteq> [] \<and> timestamp (signature (hd h)) = ts0
     \<and> map (\<lambda>e. timestamp (signature e)) h = map fst snaps
     \<and> sorted_wrt (\<lambda>a b. After b a) (map fst snaps)
     \<and> wellformed_state cur
     \<and> (\<forall>fs t tRollback. distinct (map Name fs) \<and> same_mapping fs cur \<and> \<not> Before t ts0 \<longrightarrow>
          (\<exists>fs' target.
             RollbackTo_loop h False tRollback t (length h - 1) (Some fs) = Some fs'
             \<and> state_at snaps t = Some target
             \<and> distinct (map Name fs') \<and> same_mapping fs' target))"

section \<open>Properties\<close>

subsection \<open>Field slices\<close>

lemma IndexOf_from_TryGet: "IndexOf_from i s name \<noteq> -1 \<longleftrightarrow> TryGet s name \<noteq> None"
proof (induction s arbitrary: i)
  case Nil show ?case by simp
next
  case (Cons f s) show ?case using Cons[of "Suc i"] by auto
qed

lemma Contains_TryGet: "Contains s name \<longleftrightarrow> TryGet s name \<noteq> None"
  by (simp add: Contains_def IndexOf_def IndexOf_from_TryGet)

lemma TryGet_Some_mem: "TryGet s name = Some f \<Longrightarrow> f \<in> set s \<and> Name f = name"
  by (induction s) (auto split: if_splits)

lemma TryGet_None_iff: "TryGet s name = None \<longleftrightarrow> name \<notin> Name ` set s"
  by (induction s) auto

lemma comparable_equals: "comparable v \<Longrightarrow> \<exists>b. equals v w = Return b"
  by (cases v) simp_all

subsection \<open>The two loops of getHistoryFields\<close>

lemma removed_fields_eq: "removed_fields N history O' = history @ removed_group O' N"
  by (induction O' arbitrary: history) (simp_all add: removed_group_def)

lemma added_or_updated_eq:
  assumes "\<forall>field \<in> set O'. comparable (Value field)"
  shows "added_or_updated O' history N =
           Return (history @ concat (map (\<lambda>newField. changed_entry O' newField @ added_entry O' newField) N))"
proof (induction N arbitrary: history)
  case Nil show ?case by simp
next
  case (Cons n N)
  show ?case
  proof (cases "TryGet O' (Name n)")
    case None
    then show ?thesis by (simp add: Cons changed_entry_def added_entry_def)
  next
    case (Some oldField)
    then have "comparable (Value oldField)" using assms TryGet_Some_mem by blast
    then obtain b where "equals (Value oldField) (Value n) = Return b"
      using comparable_equals by blast
    then show ?thesis using Some by (simp add: Cons changed_entry_def added_entry_def)
  qed
qed

lemma getHistoryFields_Some:
  assumes "\<forall>field \<in> set O'. comparable (Value field)"
  shows "getHistoryFields (Some O') N = Return (one_pass_reverse_delta O' (elems N))"
  using added_or_updated_eq[OF assms]
  by (simp add: getHistoryFields_def removed_fields_eq one_pass_reverse_delta_def)

subsection \<open>The query loops\<close>

lemma SignaturesForField_loop_filter:
  "SignaturesForField_loop signatures values fieldName =
     signatures @ map signature (filter (\<lambda>h. mentions (fields' h) fieldName) values)"
  by (induction "values" arbitrary: signatures) simp_all

subsection \<open>What a call of Audit leaves behind\<close>

lemma Audit_outcome:
  "(\<exists>r. Audit values oldObj newObj sig = (r, values) \<and> (\<forall>err. r \<noteq> Return (True, err)))
   \<or> (\<exists>fs. fs \<noteq> [] \<and>
         Audit values oldObj newObj sig = (Return (True, None), values @ [\<lparr>fields' = fs, signature = sig\<rparr>]))"
proof -
  obtain oldFields tRollback err where old:
    "(case oldObj of None \<Rightarrow> (None, Time_zero, None) | Some obj \<Rightarrow> GetFields obj) = (oldFields, tRollback, err)"
    by (metis prod_cases3)
  show ?thesis
  proof (cases newObj)
    case None
    then show ?thesis by (simp add: Audit_def old)
  next
    case (Some new)
    obtain newFields tRollback' err' where new: "GetFields new = (newFields, tRollback', err')"
      by (metis prod_cases3)
    show ?thesis
      by (cases "getHistoryFields oldFields newFields")
         (simp_all add: Audit_def old Some new addHistory_def)
  qed
qed

lemma TryGet_distinct:
  "distinct (map Name s) \<Longrightarrow> f \<in> set s \<Longrightarrow> TryGet s (Name f) = Some f"
  by (induction s) (auto simp: rev_image_eqI)

lemma one_pass_same_fields:
  assumes "mset fs' = mset fs" and "distinct (map Name fs)"
    and "\<forall>f \<in> set fs. equals (Value f) (Value f) = Return True"
  shows "one_pass_reverse_delta fs fs' = []"
proof -
  have set_eq: "set fs' = set fs" using assms(1) by (rule mset_eq_setD)
  have "removed_group fs fs' = []"
    by (auto simp: removed_group_def filter_empty_conv Contains_TryGet TryGet_None_iff set_eq)
  moreover have "changed_entry fs f @ added_entry fs f = []" if "f \<in> set fs'" for f
  proof -
    have "TryGet fs (Name f) = Some f" using that assms(2) set_eq TryGet_distinct by blast
    then show ?thesis using that assms(3) set_eq by (simp add: changed_entry_def added_entry_def)
  qed
  ultimately show ?thesis by (simp add: one_pass_reverse_delta_def)
qed

lemma self_equal_comparable: "equals v v = Return True \<Longrightarrow> comparable v"
  by (cases v) simp_all

subsection \<open>The bounds of the signature codec\<close>

lemma nanos_bounds:
  "nanos Time_zero = -62135596800000000000" "nanos minAllowed = 1" "nanos maxAllowed = 7258118400000000000"
  by (simp_all add: Time_zero_def minAllowed_def maxAllowed_def Date_def days_from_civil_def)

lemma buffer_writer_simps:
  "WriteByteValue (buffer_writer E) b out = (None, out @ encByteValue E b)"
  "WriteInt (buffer_writer E) i out = (None, out @ encInt E i)"
  "WriteString (buffer_writer E) s out = (None, out @ encString E s)"
  "WriteBool (buffer_writer E) bo out = (None, out @ encBool E bo)"
  "WriteInt64 (buffer_writer E) w out = (None, out @ encInt64 E w)"
  "WriteFloat64 (buffer_writer E) w out = (None, out @ encFloat64 E w)"
  "WriteStrings (buffer_writer E) ss out = (None, out @ encStrings E ss)"
  "WriteBools (buffer_writer E) bs out = (None, out @ encBools E bs)"
  "WriteInts (buffer_writer E) is out = (None, out @ encInts E is)"
  "WriteInt64s (buffer_writer E) ws out = (None, out @ encInt64s E ws)"
  "WriteFloat64s (buffer_writer E) ws out = (None, out @ encFloat64s E ws)"
  "WriteByteValues (buffer_writer E) bys out = (None, out @ encByteValues E bys)"
  by (simp_all add: buffer_writer_def append_to_def)

lemma UnixNano_exact:
  assumes "\<not> Before t minAllowed" and "\<not> After t maxAllowed"
  shows "sint (UnixNano t) = nanos t"
proof -
  have "1 \<le> nanos t" "nanos t \<le> 7258118400000000000"
    using assms by (simp_all add: Before_def After_def nanos_bounds)
  then show ?thesis
    unfolding UnixNano_def by (simp add: int_word_sint)
qed

subsection \<open>Writing into a buffer\<close>

lemma and_then_None: "and_then (None, s) f = f s"
  by (simp add: and_then_def)

lemma shadowed_None: "shadowed (None, s) f = (None, snd (f s))"
  by (simp add: shadowed_def)

lemma write_value_buffer:
  "serializable_value v \<Longrightarrow> write_value (buffer_writer E) v out = (None, out @ wire_value E v)"
  by (cases v) (simp_all add: buffer_writer_simps and_then_None shadowed_None)

lemma SerializeToBufRW_buffer:
  "serializable_signature sig \<Longrightarrow>
   SerializeToBufRW (buffer_writer E) sig out = (None, out @ wire_signature E sig)"
  by (auto simp: serializable_signature_def SerializeToBufRW_def buffer_writer_simps and_then_None
      wire_signature_def Let_def)

lemma write_fields_buffer:
  "list_all (\<lambda>f. serializable_value (Value f)) fs \<Longrightarrow>
   write_fields (buffer_writer E) names fs out = (None, out @ concat (map (wire_field E names) fs))"
  by (induction fs arbitrary: out)
     (simp_all add: buffer_writer_simps wire_field_def write_value_buffer and_then_None)

lemma write_names_buffer:
  "write_names (buffer_writer E) names out = (None, out @ concat (map (encString E) names))"
  by (induction names arbitrary: out) (simp_all add: buffer_writer_simps and_then_None)

lemma write_history_buffer:
  "serializable_history h \<Longrightarrow>
   write_history (buffer_writer E) names h out = (None, out @ concat (map (wire_entry E names) h))"
  by (induction h arbitrary: out)
     (simp_all add: serializable_history_def buffer_writer_simps wire_entry_def
        SerializeToBufRW_buffer write_fields_buffer and_then_None)

lemma strings_Contains_set: "strings_Contains xs s \<longleftrightarrow> s \<in> set xs"
  by (induction xs) auto

lemma first_occurrences_snoc:
  "first_occurrences (xs @ [x]) =
     (if x \<in> set xs then first_occurrences xs else first_occurrences xs @ [x])"
  by (simp add: first_occurrences_def)

lemma set_first_occurrences: "set (first_occurrences xs) = set xs"
  by (simp add: first_occurrences_def)

lemma distinct_first_occurrences: "distinct (first_occurrences xs)"
  by (simp add: first_occurrences_def)

lemma intern_fields_eq:
  "intern_fields (first_occurrences pre) fs = first_occurrences (pre @ map Name fs)"
proof (induction fs arbitrary: pre)
  case Nil show ?case by simp
next
  case (Cons f fs)
  show ?case using Cons[of "pre @ [Name f]"]
    by (auto simp: strings_Contains_set set_first_occurrences first_occurrences_snoc split: if_splits)
qed

lemma intern_history_eq:
  "intern_history (first_occurrences pre) h = first_occurrences (pre @ field_names h)"
proof (induction h arbitrary: pre)
  case Nil show ?case by (simp add: field_names_def)
next
  case (Cons e h)
  show ?case using Cons[of "pre @ map Name (fields' e)"]
    by (simp add: intern_fields_eq field_names_def)
qed

lemma intern_history_first_occurrences:
  "intern_history [] h = first_occurrences (field_names h)"
  using intern_history_eq[of "[]" h] by (simp add: first_occurrences_def)

lemma SerializeTo_buffer:
  "serializable_history h \<Longrightarrow> SerializeTo (buffer_writer E) h [] = (None, wire_history E h)"
  by (simp add: SerializeTo_def wire_history_def buffer_writer_simps and_then_None Let_def
      write_names_buffer write_history_buffer intern_history_first_occurrences)

subsection \<open>Reading what was written\<close>

lemma decodesD:
  assumes "decodes R E"
  shows "ReadByteValue R (encByteValue E b @ rest) = (b, None, rest)"
    "ReadInt R (encInt E i @ rest) = (i, None, rest)"
    "ReadString R (encString E s @ rest) = (s, None, rest)"
    "ReadBool R (encBool E bo @ rest) = (bo, None, rest)"
    "ReadInt64 R (encInt64 E w @ rest) = (w, None, rest)"
    "ReadFloat64 R (encFloat64 E fl @ rest) = (fl, None, rest)"
    "ReadStrings R (encStrings E ss @ rest) = (ss, None, rest)"
    "ReadBools R (encBools E bs @ rest) = (bs, None, rest)"
    "ReadInts R (encInts E is @ rest) = (is, None, rest)"
    "ReadInt64s R (encInt64s E ws @ rest) = (ws, None, rest)"
    "ReadFloat64s R (encFloat64s E fs @ rest) = (fs, None, rest)"
    "ReadByteValues R (encByteValues E bys @ rest) = (bys, None, rest)"
  using assms by (simp_all add: decodes_def)

lemma read_value_wire:
  assumes "decodes R E" and "serializable_value v"
  shows "read_value R (wire_value E v @ rest) = (v, None, rest)"
  using assms(2) by (cases v) (simp_all add: read_value_def decodesD[OF assms(1)])

lemma strings_IndexOf_from_mem:
  "s \<in> set xs \<Longrightarrow>
     int i \<le> strings_IndexOf_from i xs s \<and> strings_IndexOf_from i xs s < int i + int (length xs)
     \<and> xs ! nat (strings_IndexOf_from i xs s - int i) = s"
proof (induction xs arbitrary: i)
  case Nil then show ?case by simp
next
  case (Cons x xs)
  show ?case
  proof (cases "x = s")
    case True then show ?thesis by simp
  next
    case False
    then have "s \<in> set xs" using Cons.prems by simp
    from Cons.IH[OF this, of "Suc i"] False show ?thesis
      by (auto simp: nat_diff_distrib' Suc_nat_eq_nat_zadd1 nat_add_distrib)
  qed
qed

lemma strings_IndexOf_mem:
  "s \<in> set xs \<Longrightarrow>
     0 \<le> strings_IndexOf xs s \<and> strings_IndexOf xs s < int (length xs)
     \<and> xs ! nat (strings_IndexOf xs s) = s"
  using strings_IndexOf_from_mem[of s xs 0] by (simp add: strings_IndexOf_def)

lemma read_fields_wire:
  assumes "decodes R E"
  shows "list_all (\<lambda>f. serializable_value (Value f) \<and> Name f \<in> set names) fs \<Longrightarrow>
     read_fields R names (length fs) acc (concat (map (wire_field E names) fs) @ rest)
       = (Return (acc @ fs, None), rest)"
proof (induction fs arbitrary: acc)
  case Nil show ?case by simp
next
  case (Cons f fs)
  obtain n v where fdef: "f = \<lparr>Name = n, Value = v\<rparr>" by (cases f) auto
  from Cons.prems have f: "serializable_value v" "n \<in> set names"
    and fs: "list_all (\<lambda>f. serializable_value (Value f) \<and> Name f \<in> set names) fs"
    by (simp_all add: fdef)
  note idx = strings_IndexOf_mem[OF f(2)]
  show ?case
    using idx Cons.IH[OF fs, of "acc @ [f]"]
    by (simp add: fdef wire_field_def decodesD[OF assms] read_value_wire[OF assms f(1)])
qed

lemma read_names_wire:
  assumes "decodes R E"
  shows "read_names R (length ns) acc (concat (map (encString E) ns) @ rest) = (acc @ ns, None, rest)"
  by (induction ns arbitrary: acc) (simp_all add: decodesD[OF assms])

lemma split_on_no_sep: "sep \<notin> set cs \<Longrightarrow> split_on sep part cs = [part @ cs]"
  by (induction cs arbitrary: part) auto

lemma split_on_sep:
  "sep \<notin> set cs \<Longrightarrow> split_on sep part (cs @ sep # ds) = (part @ cs) # split_on sep [] ds"
  by (induction cs arbitrary: part) auto

lemma Decode_Encode: "valid_auditor a \<Longrightarrow> Decode a0 (Encode a) = (None, a)"
  by (simp add: valid_auditor_def Decode_def Encode_def Split_def split_on_sep[where part = "[]", simplified]
      split_on_no_sep)

lemma timestamp_roundtrip:
  assumes "offset t = 0" and "Time_IsZero t \<or> (\<not> Before t minAllowed \<and> \<not> After t maxAllowed)"
  shows "\<not> (if Time_IsZero t then 0 else UnixNano t) <s 0"
    and "(if 0 <s (if Time_IsZero t then 0 else UnixNano t)
          then Unix_UTC (if Time_IsZero t then 0 else UnixNano t) else Time_zero) = t"
proof -
  show "\<not> (if Time_IsZero t then 0 else UnixNano t) <s 0"
    using assms(2) UnixNano_exact[of t]
    by (auto simp: word_sless_alt Before_def nanos_bounds)
  show "(if 0 <s (if Time_IsZero t then 0 else UnixNano t)
          then Unix_UTC (if Time_IsZero t then 0 else UnixNano t) else Time_zero) = t"
  proof (cases "Time_IsZero t")
    case True
    then have "t = Time_zero" using assms(1)
      by (simp add: Time_IsZero_def Time_zero_def Date_def)
    then show ?thesis using True by simp
  next
    case False
    then have "sint (UnixNano t) = nanos t" "1 \<le> nanos t"
      using assms(2) UnixNano_exact[of t] by (simp_all add: Before_def nanos_bounds)
    then show ?thesis using False assms(1)
      by (simp add: word_sless_alt Unix_UTC_def)
  qed
qed

lemma DeserializeFromBufRW_wire:
  assumes "decodes R E" and "serializable_signature sig"
  shows "DeserializeFromBufRW R sig0 (wire_signature E sig @ rest) = (None, sig, rest)"
proof -
  have a: "valid_auditor (auditor sig)" and o: "offset (timestamp sig) = 0"
    and b: "Time_IsZero (timestamp sig) \<or>
      (\<not> Before (timestamp sig) minAllowed \<and> \<not> After (timestamp sig) maxAllowed)"
    using assms(2) by (simp_all add: serializable_signature_def)
  show ?thesis
    using timestamp_roundtrip[OF o b]
    by (simp add: DeserializeFromBufRW_def wire_signature_def decodesD[OF assms(1)] Decode_Encode[OF a])
qed

lemma read_history_wire:
  assumes "decodes R E"
  shows "list_all (\<lambda>h. serializable_signature (signature h)
            \<and> list_all (\<lambda>f. serializable_value (Value f) \<and> Name f \<in> set names) (fields' h)) hs \<Longrightarrow>
     read_history R names (length hs) acc (concat (map (wire_entry E names) hs) @ rest)
       = (Return None, acc @ hs, rest)"
proof (induction hs arbitrary: acc)
  case Nil show ?case by simp
next
  case (Cons h hs)
  obtain fs sg where hdef: "h = \<lparr>fields' = fs, signature = sg\<rparr>" by (cases h) auto
  from Cons.prems have sg: "serializable_signature sg"
    and fs: "list_all (\<lambda>f. serializable_value (Value f) \<and> Name f \<in> set names) fs"
    and hs: "list_all (\<lambda>h. serializable_signature (signature h)
            \<and> list_all (\<lambda>f. serializable_value (Value f) \<and> Name f \<in> set names) (fields' h)) hs"
    by (simp_all add: hdef)
  show ?case
    using Cons.IH[OF hs, of "acc @ [h]"]
    by (simp add: hdef wire_entry_def decodesD[OF assms] DeserializeFromBufRW_wire[OF assms sg]
        read_fields_wire[OF assms fs, of "[]", simplified])
qed

lemma serializable_history_names:
  assumes "serializable_history hs"
  shows "list_all (\<lambda>h. serializable_signature (signature h)
            \<and> list_all (\<lambda>f. serializable_value (Value f)
                 \<and> Name f \<in> set (first_occurrences (field_names hs))) (fields' h)) hs"
  using assms
  by (auto simp: serializable_history_def list_all_iff set_first_occurrences field_names_def)

lemma DeserializeFrom_wire:
  assumes "decodes R E" and "serializable_history hs"
  shows "DeserializeFrom R prev (wire_history E hs) = (Return None, hs)"
  using read_history_wire[OF assms(1) serializable_history_names[OF assms(2)], of "[]" "[]"]
  by (simp add: DeserializeFrom_def wire_history_def Let_def decodesD[OF assms(1)]
      read_names_wire[OF assms(1), of _ "[]", simplified])

lemma decodes_items: "decodes item_reader item_encoding"
  by (simp add: decodes_def item_reader_def item_encoding_def)

lemma example_history_serializable: "serializable_history example_history"
  by (simp add: serializable_history_def example_history_def creation_entry_def NewSignature_def
      serializable_signature_def valid_auditor_def Auditor_zero_def Time_IsZero_def Before_def After_def
      nanos_bounds Date_def days_from_civil_def Time_zero_def)

subsection \<open>What the reader rejects\<close>

lemma DeserializeFrom_version:
  "fst (ReadByteValue R s) \<noteq> 1 \<Longrightarrow> \<exists>err. DeserializeFrom R values s = (Return (Some err), values)"
  by (auto simp: DeserializeFrom_def split: prod.splits option.splits)

lemma read_value_unknown_tag:
  "11 < fst (ReadByteValue R s) \<Longrightarrow> \<exists>v err s'. read_value R s = (v, Some err, s')"
  by (auto simp: read_value_def split: prod.splits)

lemma read_fields_nameIndex:
  "ReadInt R s = (nameIndex, None, s') \<Longrightarrow> nameIndex < 0 \<or> int (length fieldNames) \<le> nameIndex \<Longrightarrow>
   read_fields R fieldNames (Suc n) fs s = (Panic ''index out of range'', s')"
  by auto

lemma zero_signature_items:
  "DeserializeFromBufRW item_reader sig0 (IInt 1 # IString ''/'' # IInt64 0 # rest) =
     (None, Signature_zero, rest)"
  by (simp add: DeserializeFromBufRW_def item_reader_def Decode_def Split_def Signature_zero_def
      Auditor_zero_def)

subsection \<open>Sameness of values\<close>

lemma slice_equal_iff: "slice_equal eq xs ys \<longleftrightarrow> list_all2 eq xs ys"
  by (induction eq xs ys rule: slice_equal.induct) simp_all

lemma slice_equal_eq: "slice_equal (=) xs ys \<longleftrightarrow> xs = ys"
  by (simp add: slice_equal_iff list_all2_eq)

lemma float64_eq_sym: "float64_eq a b \<Longrightarrow> float64_eq b a"
  by (auto simp: float64_eq_def)

lemma float64_eq_trans: "float64_eq a b \<Longrightarrow> float64_eq b c \<Longrightarrow> float64_eq a c"
  by (auto simp: float64_eq_def)

lemma float64s_sym: "slice_equal float64_eq xs ys \<Longrightarrow> slice_equal float64_eq ys xs"
  unfolding slice_equal_iff by (auto simp: list_all2_conv_all_nth intro: float64_eq_sym)

lemma float64s_trans:
  "slice_equal float64_eq xs ys \<Longrightarrow> slice_equal float64_eq ys zs \<Longrightarrow> slice_equal float64_eq xs zs"
  unfolding slice_equal_iff by (erule (1) list_all2_trans[OF float64_eq_trans, rotated 2])

lemma equals_True_sym: "equals a b = Return True \<Longrightarrow> equals b a = Return True"
  by (cases a; cases b) (auto simp: slice_equal_eq dest: float64_eq_sym float64s_sym)

lemma equals_True_trans:
  "equals a b = Return True \<Longrightarrow> equals b c = Return True \<Longrightarrow> equals a c = Return True"
  by (cases a; cases b)
     (auto simp: slice_equal_eq split: Value.splits dest: float64_eq_trans float64s_trans)

lemma same_value_refl: "same_value a a"
  by (simp add: same_value_def)

lemma same_value_sym: "same_value a b \<Longrightarrow> same_value b a"
  by (auto simp: same_value_def dest: equals_True_sym)

lemma same_value_trans: "same_value a b \<Longrightarrow> same_value b c \<Longrightarrow> same_value a c"
  by (auto simp: same_value_def dest: equals_True_trans)

subsection \<open>Set and Remove on the mapping of a slice\<close>

lemma IndexOf_from_shift:
  "IndexOf_from (Suc i) s name = (if IndexOf_from i s name = -1 then -1 else IndexOf_from i s name + 1)"
proof (induction s arbitrary: i)
  case Nil show ?case by simp
next
  case (Cons f s)
  show ?case using Cons[of "Suc i"] by auto
qed

lemma IndexOf_from_nonneg: "IndexOf_from i s name = -1 \<or> int i \<le> IndexOf_from i s name"
proof (induction s arbitrary: i)
  case Nil show ?case by simp
next
  case (Cons f s)
  show ?case using Cons[of "Suc i"] by auto
qed

lemma IndexOf_Nil: "IndexOf [] name = -1"
  by (simp add: IndexOf_def)

lemma IndexOf_Cons:
  "IndexOf (f # s) name =
     (if Name f = name then 0 else if IndexOf s name = -1 then -1 else IndexOf s name + 1)"
  using IndexOf_from_shift[of 0 s name] by (simp add: IndexOf_def)

lemma IndexOf_nonneg: "IndexOf s name = -1 \<or> 0 \<le> IndexOf s name"
  using IndexOf_from_nonneg[of 0 s name] by (simp add: IndexOf_def)

lemma IndexOf_TryGet: "IndexOf s name = -1 \<longleftrightarrow> TryGet s name = None"
  using IndexOf_from_TryGet[of 0 s name] by (auto simp: IndexOf_def)

lemma Set_Nil: "Set [] name v = [\<lparr>Name = name, Value = v\<rparr>]"
  by (simp add: Set_def IndexOf_Nil)

lemma Set_Cons:
  "Set (f # s) name v =
     (if Name f = name then \<lparr>Name = name, Value = v\<rparr> # s else f # Set s name v)"
  using IndexOf_nonneg[of s name]
  by (auto simp: Set_def IndexOf_Cons Let_def nat_add_distrib)

lemma lookup_Nil: "lookup [] m = None"
  by (simp add: lookup_def)

lemma lookup_Cons: "lookup (f # s) m = (if Name f = m then Some (Value f) else lookup s m)"
  by (simp add: lookup_def)

lemma lookup_Set: "lookup (Set s name v) m = (if m = name then Some v else lookup s m)"
  by (induction s) (auto simp: Set_Nil Set_Cons lookup_Cons lookup_Nil)

lemma names_Set:
  "map Name (Set s name v) = (if name \<in> set (map Name s) then map Name s else map Name s @ [name])"
  by (induction s) (auto simp: Set_Nil Set_Cons)

lemma distinct_Set: "distinct (map Name s) \<Longrightarrow> distinct (map Name (Set s name v))"
  by (simp add: names_Set)

lemma lookup_None_iff: "lookup s m = None \<longleftrightarrow> m \<notin> Name ` set s"
  by (simp add: lookup_def TryGet_None_iff)

lemma TryGet_split:
  "TryGet s name = Some x \<Longrightarrow> \<exists>pre post. s = pre @ x # post \<and> name \<notin> Name ` set pre \<and> Name x = name"
proof (induction s)
  case Nil then show ?case by simp
next
  case (Cons f s)
  show ?case
  proof (cases "Name f = name")
    case True
    then have "f = x" using Cons.prems by simp
    then have "f # s = [] @ x # s \<and> name \<notin> Name ` set [] \<and> Name x = name" using True by simp
    then show ?thesis by blast
  next
    case False
    then obtain pre post where "s = pre @ x # post" "name \<notin> Name ` set pre" "Name x = name"
      using Cons by auto
    then have "f # s = (f # pre) @ x # post \<and> name \<notin> Name ` set (f # pre) \<and> Name x = name"
      using False by simp
    then show ?thesis by blast
  qed
qed

lemma IndexOf_split:
  "name \<notin> Name ` set pre \<Longrightarrow> Name x = name \<Longrightarrow> IndexOf (pre @ x # post) name = int (length pre)"
  by (induction pre) (auto simp: IndexOf_Cons)

lemma Remove_split:
  assumes "name \<notin> Name ` set pre" and "Name x = name"
  shows "Remove (pre @ x # post) name = (if post = [] then pre else pre @ last post # butlast post)"
  using assms by (simp add: Remove_def IndexOf_split list_update_append butlast_append)

lemma Remove_absent: "TryGet s name = None \<Longrightarrow> Remove s name = s"
  by (simp add: Remove_def IndexOf_TryGet)

lemma lookup_distinct:
  "distinct (map Name s) \<Longrightarrow> lookup s m = Some v \<longleftrightarrow> (\<exists>f \<in> set s. Name f = m \<and> Value f = v)"
proof (induction s)
  case Nil show ?case by (simp add: lookup_Nil)
next
  case (Cons f s)
  then have IH: "lookup s m = Some v \<longleftrightarrow> (\<exists>f \<in> set s. Name f = m \<and> Value f = v)"
    and nf: "Name f \<notin> Name ` set s" by simp_all
  show ?case
  proof (cases "Name f = m")
    case True
    then have "\<not> (\<exists>g \<in> set s. Name g = m)" using nf by blast
    then show ?thesis using True by (auto simp: lookup_Cons)
  next
    case False
    then show ?thesis using IH by (auto simp: lookup_Cons)
  qed
qed

lemma lookup_eqI:
  assumes "\<And>v. lookup a m = Some v \<longleftrightarrow> lookup b m = Some v"
  shows "lookup a m = lookup b m"
proof (cases "lookup a m")
  case None
  then have "\<And>v. lookup b m \<noteq> Some v" using assms by simp
  then show ?thesis using None by (cases "lookup b m") auto
next
  case (Some v)
  then show ?thesis using assms by simp
qed

lemma rotate_last:
  assumes "distinct (map Name post)"
  shows "\<exists>zs. (if post = [] then [] else last post # butlast post) = zs
    \<and> set zs = set post \<and> distinct (map Name zs)"
proof (cases "post = []")
  case True then show ?thesis by simp
next
  case False
  note id = append_butlast_last_id[OF False]
  have "set (butlast post @ [last post]) = set post" by (simp only: id)
  then have s: "set (last post # butlast post) = set post" by auto
  have "distinct (map Name (butlast post @ [last post]))" using assms by (simp only: id)
  then have "distinct (map Name (last post # butlast post))" by auto
  then show ?thesis using False s by (simp del: set_simps distinct.simps list.map)
qed

lemma Remove_present:
  assumes "distinct (map Name s)" and "TryGet s name = Some x"
  shows "distinct (map Name (Remove s name))" and "set (Remove s name) = set s - {x}"
proof -
  obtain pre post where s: "s = pre @ x # post" and pre: "name \<notin> Name ` set pre" and x: "Name x = name"
    using TryGet_split[OF assms(2)] by blast
  have d: "distinct (map Name pre)" "distinct (map Name post)"
    "Name ` set pre \<inter> Name ` set post = {}" "name \<notin> Name ` set post"
    using assms(1) x unfolding s by auto
  obtain zs where zs: "(if post = [] then [] else last post # butlast post) = zs"
    "set zs = set post" "distinct (map Name zs)"
    using rotate_last[OF d(2)] by blast
  have "Remove s name = (if post = [] then pre else pre @ last post # butlast post)"
    unfolding s by (rule Remove_split[OF pre x])
  then have R: "Remove s name = pre @ zs" using zs(1) by (cases "post = []") auto
  have xs: "x \<notin> set pre" "x \<notin> set post" using pre d(4) x by auto
  show "distinct (map Name (Remove s name))"
    unfolding R using d(1,3) zs(2,3) by simp
  have sset: "set s = insert x (set pre \<union> set post)" unfolding s by auto
  show "set (Remove s name) = set s - {x}"
    unfolding R sset using xs zs(2) by auto
qed

lemma lookup_Remove:
  assumes "distinct (map Name s)"
  shows "lookup (Remove s name) m = (if m = name then None else lookup s m)"
proof (cases "TryGet s name")
  case None
  then have "lookup s name = None" by (simp add: lookup_def)
  then show ?thesis using None by (auto simp: Remove_absent)
next
  case (Some x)
  note R = Remove_present[OF assms Some]
  have x: "x \<in> set s" "Name x = name" using TryGet_Some_mem[OF Some] by auto
  show ?thesis
  proof (cases "m = name")
    case True
    have "f = x" if "f \<in> set s" "Name f = name" for f
    proof -
      have "TryGet s (Name f) = Some f" using TryGet_distinct[OF assms that(1)] .
      then show ?thesis using Some that(2) by simp
    qed
    then have "name \<notin> Name ` set (Remove s name)" unfolding R(2) by blast
    then show ?thesis using True by (simp add: lookup_None_iff)
  next
    case False
    have "lookup (Remove s name) m = lookup s m"
    proof (rule lookup_eqI)
      fix v
      have "(\<exists>f \<in> set s - {x}. Name f = m \<and> Value f = v) \<longleftrightarrow> (\<exists>f \<in> set s. Name f = m \<and> Value f = v)"
        using False x(2) by blast
      then show "lookup (Remove s name) m = Some v \<longleftrightarrow> lookup s m = Some v"
        unfolding lookup_distinct[OF R(1)] lookup_distinct[OF assms] R(2) .
    qed
    then show ?thesis using False by simp
  qed
qed

lemma distinct_Remove: "distinct (map Name s) \<Longrightarrow> distinct (map Name (Remove s name))"
  by (cases "TryGet s name") (simp_all add: Remove_absent Remove_present(1))

subsection \<open>Undoing the fields of an entry\<close>

lemma undo_field_Some:
  assumes "distinct (map Name xs)"
  shows "\<exists>ys. undo_field (Some xs) f = Some ys \<and> distinct (map Name ys)
     \<and> (\<forall>m. lookup ys m =
          (if m = Name f then
             (if Value f = VMagic magicValueFieldRemoved then None else Some (Value f))
           else lookup xs m))"
proof (cases "Value f = VMagic magicValueFieldRemoved")
  case True
  then have "undo_field (Some xs) f = Some (Remove xs (Name f))"
    by (simp add: undo_field_def slice_Remove_def)
  then show ?thesis
    using True distinct_Remove[OF assms] lookup_Remove[OF assms] by simp
next
  case False
  then have "undo_field (Some xs) f = Some (Set xs (Name f) (Value f))"
    by (simp add: undo_field_def slice_Set_def elems_def)
  then show ?thesis
    using False distinct_Set[OF assms] lookup_Set by simp
qed

lemma undo_fields_Some:
  "distinct (map Name xs) \<Longrightarrow> distinct (map Name d) \<Longrightarrow>
   \<exists>ys. undo_fields (Some xs) d = Some ys \<and> distinct (map Name ys)
     \<and> (\<forall>m. lookup ys m =
          (case TryGet d m of
             Some f \<Rightarrow> (if Value f = VMagic magicValueFieldRemoved then None else Some (Value f))
           | None \<Rightarrow> lookup xs m))"
proof (induction d arbitrary: xs)
  case Nil
  then show ?case by simp
next
  case (Cons f d)
  obtain xs1 where x1: "undo_field (Some xs) f = Some xs1" "distinct (map Name xs1)"
    "\<And>m. lookup xs1 m =
          (if m = Name f then
             (if Value f = VMagic magicValueFieldRemoved then None else Some (Value f))
           else lookup xs m)"
    using undo_field_Some[OF Cons.prems(1), of f] by blast
  have dd: "distinct (map Name d)" and nf: "Name f \<notin> Name ` set d" using Cons.prems(2) by simp_all
  obtain ys where ys: "undo_fields (Some xs1) d = Some ys" "distinct (map Name ys)"
    "\<And>m. lookup ys m =
          (case TryGet d m of
             Some f \<Rightarrow> (if Value f = VMagic magicValueFieldRemoved then None else Some (Value f))
           | None \<Rightarrow> lookup xs1 m)"
    using Cons.IH[OF x1(2) dd] by blast
  have "lookup ys m =
          (case TryGet (f # d) m of
             Some f \<Rightarrow> (if Value f = VMagic magicValueFieldRemoved then None else Some (Value f))
           | None \<Rightarrow> lookup xs m)" for m
  proof (cases "Name f = m")
    case True
    then have "TryGet d m = None" using nf by (simp add: TryGet_None_iff)
    then show ?thesis using True ys(3)[of m] x1(3)[of m] by simp
  next
    case False
    then show ?thesis using ys(3)[of m] x1(3)[of m] by (auto split: option.splits)
  qed
  then show ?case using ys(1,2) x1(1) by simp
qed

lemma TryGet_append:
  "TryGet (a @ b) m = (case TryGet a m of Some f \<Rightarrow> Some f | None \<Rightarrow> TryGet b m)"
  by (induction a) auto

lemma TryGet_filter:
  "distinct (map Name s) \<Longrightarrow>
   TryGet (filter P s) m = (case TryGet s m of Some f \<Rightarrow> if P f then Some f else None | None \<Rightarrow> None)"
proof (induction s)
  case Nil show ?case by simp
next
  case (Cons f s)
  then have IH: "TryGet (filter P s) m = (case TryGet s m of Some f \<Rightarrow> if P f then Some f else None | None \<Rightarrow> None)"
    and nf: "Name f \<notin> Name ` set s" by simp_all
  show ?case
  proof (cases "Name f = m")
    case True
    then have "TryGet s m = None" using nf by (simp add: TryGet_None_iff)
    then show ?thesis using True IH by simp
  next
    case False
    then show ?thesis using IH by simp
  qed
qed

subsection \<open>The fields of an entry, by name\<close>

lemma entry_names:
  "f \<in> set (changed_entry O' n @ added_entry O' n) \<Longrightarrow> Name f = Name n"
  by (auto simp: changed_entry_def added_entry_def split: option.splits if_splits
      dest: TryGet_Some_mem TryGet_Some_mem[OF sym])

lemma entry_length: "length (changed_entry O' n @ added_entry O' n) \<le> 1"
  by (auto simp: changed_entry_def added_entry_def split: option.splits)

lemma TryGet_entry:
  "TryGet (changed_entry O' n @ added_entry O' n) m =
     (if m = Name n then
        (case TryGet O' m of
           Some oldField \<Rightarrow> if equals (Value oldField) (Value n) = Return False then Some oldField else None
         | None \<Rightarrow> Some \<lparr>Name = m, Value = VMagic magicValueFieldRemoved\<rparr>)
      else None)"
proof (cases "m = Name n")
  case True
  then show ?thesis
    by (auto simp: changed_entry_def added_entry_def split: option.splits dest: TryGet_Some_mem)
next
  case False
  then have "m \<notin> Name ` set (changed_entry O' n @ added_entry O' n)"
    using entry_names by blast
  then show ?thesis using False by (simp only: TryGet_None_iff[symmetric] if_False)
qed

lemma TryGet_concat:
  assumes "\<And>n f. f \<in> set (g n) \<Longrightarrow> Name f = Name n"
  shows "distinct (map Name N) \<Longrightarrow>
    TryGet (concat (map g N)) m = (case TryGet N m of Some n \<Rightarrow> TryGet (g n) m | None \<Rightarrow> None)"
proof (induction N)
  case Nil show ?case by simp
next
  case (Cons n N)
  then have IH: "TryGet (concat (map g N)) m = (case TryGet N m of Some n \<Rightarrow> TryGet (g n) m | None \<Rightarrow> None)"
    and nn: "Name n \<notin> Name ` set N" by simp_all
  show ?case
  proof (cases "Name n = m")
    case True
    then have "TryGet N m = None" using nn by (simp add: TryGet_None_iff)
    then show ?thesis using True IH by (simp add: TryGet_append split: option.splits)
  next
    case False
    have "m \<notin> Name ` set (g n)"
    proof
      assume "m \<in> Name ` set (g n)"
      then obtain f where "f \<in> set (g n)" "Name f = m" by auto
      then show False using assms[of f n] False by simp
    qed
    then have "TryGet (g n) m = None" by (simp add: TryGet_None_iff)
    then show ?thesis using False IH by (simp add: TryGet_append)
  qed
qed

lemma distinct_concat:
  assumes "\<And>n f. f \<in> set (g n) \<Longrightarrow> Name f = Name n" and "\<And>n. length (g n) \<le> 1"
  shows "distinct (map Name N) \<Longrightarrow> distinct (map Name (concat (map g N)))"
proof (induction N)
  case Nil show ?case by simp
next
  case (Cons n N)
  then have IH: "distinct (map Name (concat (map g N)))" and nn: "Name n \<notin> Name ` set N" by simp_all
  have one: "distinct (map Name (g n))"
    using assms(2)[of n] by (cases "g n") (auto simp: Suc_le_eq)
  have "Name f \<noteq> Name f'" if a: "f \<in> set (g n)" and b: "f' \<in> set (concat (map g N))" for f f'
  proof -
    obtain n' where "n' \<in> set N" "f' \<in> set (g n')" using b by auto
    then have "Name f' \<in> Name ` set N" using assms(1)[of f' n'] by auto
    then show ?thesis using assms(1)[OF a] nn by auto
  qed
  then have "Name ` set (g n) \<inter> Name ` set (concat (map g N)) = {}" by blast
  then show ?case using IH one by simp
qed

lemma TryGet_one_pass:
  assumes "distinct (map Name O')" and "distinct (map Name N)"
  shows "TryGet (one_pass_reverse_delta O' N) m =
     (case TryGet O' m of
        Some oldField \<Rightarrow>
          (case TryGet N m of
             None \<Rightarrow> Some oldField
           | Some n \<Rightarrow> if equals (Value oldField) (Value n) = Return False then Some oldField else None)
      | None \<Rightarrow>
          (case TryGet N m of
             None \<Rightarrow> None
           | Some n \<Rightarrow> Some \<lparr>Name = m, Value = VMagic magicValueFieldRemoved\<rparr>))"
proof -
  let ?g = "\<lambda>n. changed_entry O' n @ added_entry O' n"
  have r: "TryGet (removed_group O' N) m =
      (case TryGet O' m of Some f \<Rightarrow> if \<not> Contains N (Name f) then Some f else None | None \<Rightarrow> None)"
    unfolding removed_group_def by (rule TryGet_filter[OF assms(1)])
  have c: "TryGet (concat (map ?g N)) m = (case TryGet N m of Some n \<Rightarrow> TryGet (?g n) m | None \<Rightarrow> None)"
    by (rule TryGet_concat[OF entry_names assms(2)])
  have d: "TryGet (one_pass_reverse_delta O' N) m =
      (case TryGet (removed_group O' N) m of Some f \<Rightarrow> Some f | None \<Rightarrow> TryGet (concat (map ?g N)) m)"
    by (simp only: one_pass_reverse_delta_def TryGet_append)
  show ?thesis
  proof (cases "TryGet O' m")
    case None
    show ?thesis
    proof (cases "TryGet N m")
      case None
      then show ?thesis using \<open>TryGet O' m = None\<close> by (simp add: d r c)
    next
      case (Some n)
      then have "Name n = m" using TryGet_Some_mem by blast
      then have "TryGet (?g n) m = Some \<lparr>Name = m, Value = VMagic magicValueFieldRemoved\<rparr>"
        using \<open>TryGet O' m = None\<close> by (simp only: TryGet_entry) simp
      then show ?thesis using \<open>TryGet O' m = None\<close> Some by (simp only: d r c) simp
    qed
  next
    case (Some oldField)
    then have no: "Name oldField = m" using TryGet_Some_mem by blast
    show ?thesis
    proof (cases "TryGet N m")
      case None
      then show ?thesis using Some no by (simp add: d r c Contains_TryGet)
    next
      case (Some n)
      then have nn: "Name n = m" using TryGet_Some_mem by blast
      have "TryGet (?g n) m =
          (if equals (Value oldField) (Value n) = Return False then Some oldField else None)"
        using \<open>TryGet O' m = Some oldField\<close> nn by (simp only: TryGet_entry) simp
      then show ?thesis using \<open>TryGet O' m = Some oldField\<close> no Some
        by (simp only: d r c) (simp add: Contains_TryGet)
    qed
  qed
qed

lemma concat_mem: "f \<in> set (concat (map g N)) \<Longrightarrow> \<exists>n \<in> set N. f \<in> set (g n)"
  by (induction N) auto

lemma distinct_one_pass:
  assumes "distinct (map Name O')" and "distinct (map Name N)"
  shows "distinct (map Name (one_pass_reverse_delta O' N))"
proof -
  let ?g = "\<lambda>n. changed_entry O' n @ added_entry O' n"
  have a: "distinct (map Name (removed_group O' N))"
    unfolding removed_group_def using assms(1) by (rule distinct_map_filter)
  have b: "distinct (map Name (concat (map ?g N)))"
    by (rule distinct_concat[OF entry_names entry_length assms(2)])
  have "Name f \<noteq> Name f'"
    if r: "f \<in> set (removed_group O' N)" and c: "f' \<in> set (concat (map ?g N))" for f f'
  proof -
    have "\<not> Contains N (Name f)" using r unfolding removed_group_def by simp
    then have 1: "Name f \<notin> Name ` set N" unfolding Contains_TryGet TryGet_None_iff by simp
    obtain n where n: "n \<in> set N" "f' \<in> set (?g n)" using concat_mem[OF c] by blast
    have "Name f' = Name n" using entry_names[OF n(2)] .
    then have "Name f' \<in> Name ` set N" using n(1) by simp
    then show ?thesis using 1 by metis
  qed
  then have "Name ` set (removed_group O' N) \<inter> Name ` set (concat (map ?g N)) = {}"
    by blast
  then show ?thesis using a b unfolding one_pass_reverse_delta_def by simp
qed

lemma added_or_updated_Return:
  "added_or_updated O' history N = Return d \<Longrightarrow>
     d = history @ concat (map (\<lambda>n. changed_entry O' n @ added_entry O' n) N)
     \<and> (\<forall>n \<in> set N. \<forall>oldField. TryGet O' (Name n) = Some oldField \<longrightarrow>
           (\<exists>b. equals (Value oldField) (Value n) = Return b))"
proof (induction N arbitrary: history)
  case Nil then show ?case by simp
next
  case (Cons n N)
  show ?case
  proof (cases "TryGet O' (Name n)")
    case None
    then have "added_or_updated O'
        (history @ [\<lparr>Name = Name n, Value = VMagic magicValueFieldRemoved\<rparr>]) N = Return d"
      using Cons.prems by simp
    note IH = Cons.IH[OF this]
    show ?thesis using None IH by (simp add: changed_entry_def added_entry_def)
  next
    case (Some oldField)
    show ?thesis
    proof (cases "equals (Value oldField) (Value n)")
      case (Panic msg)
      then show ?thesis using Some Cons.prems by simp
    next
      case (Return b)
      then have "added_or_updated O' (if \<not> b then history @ [oldField] else history) N = Return d"
        using Some Cons.prems by simp
      note IH = Cons.IH[OF this]
      show ?thesis using Some Return IH by (cases b) (auto simp: changed_entry_def added_entry_def)
    qed
  qed
qed

lemma getHistoryFields_Return:
  assumes "getHistoryFields (Some O') (Some N) = Return d"
  shows "d = one_pass_reverse_delta O' N"
    and "\<And>n oldField. n \<in> set N \<Longrightarrow> TryGet O' (Name n) = Some oldField \<Longrightarrow>
           \<exists>b. equals (Value oldField) (Value n) = Return b"
  using added_or_updated_Return[of O' "removed_fields N [] O'" N d] assms
  by (simp_all add: getHistoryFields_def elems_def removed_fields_eq one_pass_reverse_delta_def)

subsection \<open>Undoing one audit\<close>

lemma same_mapping_iff:
  "same_mapping xs ys \<longleftrightarrow> (\<forall>m. rel_option same_value (lookup xs m) (lookup ys m))"
proof
  assume a: "same_mapping xs ys"
  show "\<forall>m. rel_option same_value (lookup xs m) (lookup ys m)"
  proof
    fix m
    show "rel_option same_value (lookup xs m) (lookup ys m)"
    proof (cases "m \<in> Name ` set (xs @ ys)")
      case True
      then obtain f where "f \<in> set (xs @ ys)" "Name f = m" by auto
      then show ?thesis using a unfolding same_mapping_def list_all_iff by blast
    next
      case False
      then have "lookup xs m = None" "lookup ys m = None" by (auto simp: lookup_None_iff)
      then show ?thesis by simp
    qed
  qed
next
  assume "\<forall>m. rel_option same_value (lookup xs m) (lookup ys m)"
  then show "same_mapping xs ys" unfolding same_mapping_def list_all_iff by blast
qed

lemma rel_option_same_value_trans:
  "rel_option same_value a b \<Longrightarrow> rel_option same_value b c \<Longrightarrow> rel_option same_value a c"
  by (cases a; cases b; cases c) (auto intro: same_value_trans)

lemma same_mapping_trans: "same_mapping xs ys \<Longrightarrow> same_mapping ys zs \<Longrightarrow> same_mapping xs zs"
  unfolding same_mapping_iff using rel_option_same_value_trans by blast

lemma same_mapping_refl: "same_mapping xs xs"
  unfolding same_mapping_iff by (simp add: option.rel_refl same_value_refl)

lemma wellformed_not_removed:
  "wellformed_state s \<Longrightarrow> TryGet s m = Some f \<Longrightarrow> Value f \<noteq> VMagic magicValueFieldRemoved"
proof -
  assume w: "wellformed_state s" and t: "TryGet s m = Some f"
  have "f \<in> set s" using TryGet_Some_mem[OF t] by simp
  then have "\<not> is_magic (Value f)" using w by (simp add: wellformed_state_def list_all_iff)
  then show ?thesis by auto
qed

lemma undo_step:
  assumes wO: "wellformed_state O'" and wN: "wellformed_state N"
    and g: "getHistoryFields (Some O') (Some N) = Return d"
    and dc: "distinct (map Name cur)" and sm: "same_mapping cur N"
  shows "\<exists>cur'. undo_fields (Some cur) d = Some cur' \<and> distinct (map Name cur') \<and> same_mapping cur' O'"
proof -
  have dO: "distinct (map Name O')" and dN: "distinct (map Name N)"
    using wO wN by (simp_all add: wellformed_state_def)
  note G = getHistoryFields_Return[OF g]
  have dd: "distinct (map Name d)" unfolding G(1) by (rule distinct_one_pass[OF dO dN])
  obtain cur' where c: "undo_fields (Some cur) d = Some cur'" "distinct (map Name cur')"
    and L: "\<And>m. lookup cur' m =
          (case TryGet d m of
             Some f \<Rightarrow> (if Value f = VMagic magicValueFieldRemoved then None else Some (Value f))
           | None \<Rightarrow> lookup cur m)"
    using undo_fields_Some[OF dc dd] by blast
  note T = TryGet_one_pass[OF dO dN, folded G(1)]
  have "rel_option same_value (lookup cur' m) (lookup O' m)" for m
  proof (cases "TryGet O' m")
    case None
    then have lo: "lookup O' m = None" by (simp add: lookup_def)
    show ?thesis
    proof (cases "TryGet N m")
      case None
      then have "lookup N m = None" by (simp add: lookup_def)
      then have "lookup cur m = None"
        using sm[unfolded same_mapping_iff, rule_format, of m] by (cases "lookup cur m") auto
      then show ?thesis using lo L[of m] T[of m] \<open>TryGet O' m = None\<close> None by simp
    next
      case (Some n)
      then show ?thesis using lo L[of m] T[of m] \<open>TryGet O' m = None\<close> by simp
    qed
  next
    case (Some oldField)
    then have lo: "lookup O' m = Some (Value oldField)" by (simp add: lookup_def)
    note nr = wellformed_not_removed[OF wO Some]
    show ?thesis
    proof (cases "TryGet N m")
      case None
      then show ?thesis using lo L[of m] T[of m] Some nr by (simp add: same_value_refl)
    next
      case n: (Some n)
      then have nn: "n \<in> set N" "Name n = m" using TryGet_Some_mem by blast+
      obtain b where b: "equals (Value oldField) (Value n) = Return b"
        using G(2)[OF nn(1)] Some nn(2) by auto
      show ?thesis
      proof (cases b)
        case False
        then show ?thesis using lo L[of m] T[of m] Some n nr b by (simp add: same_value_refl)
      next
        case True
        then have "TryGet d m = None" using T[of m] Some n b by simp
        then have lc: "lookup cur' m = lookup cur m" using L[of m] by simp
        have "lookup N m = Some (Value n)" using n by (simp add: lookup_def)
        then obtain c where c: "lookup cur m = Some c" "same_value c (Value n)"
          using sm[unfolded same_mapping_iff, rule_format, of m]
          by (cases "lookup cur m") auto
        have "same_value (Value n) (Value oldField)"
          using b True by (simp add: same_value_def equals_True_sym)
        then have "same_value c (Value oldField)" using c(2) same_value_trans by blast
        then show ?thesis using lc c(1) lo by simp
      qed
    qed
  qed
  then have "same_mapping cur' O'" unfolding same_mapping_iff by blast
  then show ?thesis using c by blast
qed

subsection \<open>The loop of RollbackTo and the audited states\<close>

lemma RollbackTo_loop_append:
  "i < length h \<Longrightarrow>
   RollbackTo_loop (h @ [e]) rb tR t i cur = RollbackTo_loop h rb tR t i cur"
proof (induction i arbitrary: cur)
  case 0 show ?case by simp
next
  case (Suc i)
  then have "i < length h" by simp
  then show ?case using Suc.prems Suc.IH by (simp add: nth_append Let_def)
qed

lemma RollbackTo_loop_skip:
  "(\<And>j. 0 < j \<Longrightarrow> j \<le> i \<Longrightarrow> \<not> After (timestamp (signature (h ! j))) t) \<Longrightarrow>
   RollbackTo_loop h rb tR t i cur = cur"
proof (induction i arbitrary: cur)
  case 0 show ?case by simp
next
  case (Suc i)
  have "\<not> After (timestamp (signature (h ! Suc i))) t" using Suc.prems[of "Suc i"] by simp
  moreover have "RollbackTo_loop h rb tR t i cur = cur"
    using Suc.IH Suc.prems by simp
  ultimately show ?case by (cases rb) (simp_all add: Let_def)
qed

lemma RollbackTo_loop_last:
  assumes "h \<noteq> []"
  shows "RollbackTo_loop (h @ [e]) False tR t (length h) cur =
     RollbackTo_loop h False tR t (length h - 1)
       (if \<not> After (timestamp (signature e)) t then cur else undo_fields cur (fields' e))"
proof -
  obtain k where k: "length h = Suc k" using assms by (cases h) auto
  then have "k < length h" by simp
  moreover have "(h @ [e]) ! Suc k = e" by (simp add: nth_append k)
  ultimately show ?thesis
    using RollbackTo_loop_append[of k h e False tR t] by (simp add: k Let_def)
qed

lemma state_at_snoc:
  "state_at (snaps @ [(ts, s)]) t = (if \<not> After ts t then Some s else state_at snaps t)"
  by (induction snaps) (auto split: option.splits)

lemma state_at_later:
  "(\<And>ts. ts \<in> fst ` set snaps \<Longrightarrow> After ts t) \<Longrightarrow> state_at snaps t = None"
  by (induction snaps) (auto split: option.splits)

lemma state_at_exact:
  "sorted_wrt (\<lambda>a b. After b a) (map fst snaps) \<Longrightarrow> (ts, s) \<in> set snaps \<Longrightarrow>
   state_at snaps ts = Some s"
proof (induction snaps)
  case Nil then show ?case by simp
next
  case (Cons x snaps)
  obtain ts1 s1 where x: "x = (ts1, s1)" by (cases x)
  have later: "\<And>b. b \<in> fst ` set snaps \<Longrightarrow> After b ts1"
    and sorted: "sorted_wrt (\<lambda>a b. After b a) (map fst snaps)"
    using Cons.prems(1) by (auto simp: x)
  show ?case
  proof (cases "(ts, s) \<in> set snaps")
    case True
    then show ?thesis using Cons.IH[OF sorted] by (simp add: x)
  next
    case False
    then have e: "ts1 = ts" "s1 = s" using Cons.prems(2) by (simp_all add: x)
    have "state_at snaps ts = None" using later e(1) by (intro state_at_later) simp
    then show ?thesis by (simp add: x e After_def)
  qed
qed

lemma Audit_live:
  assumes "h \<noteq> []"
    and "Audit h (Some (live_object (Some O'))) (Some (live_object (Some N))) sig = (Return (c, None), h1)"
  shows "After (timestamp sig) (timestamp (signature (last h)))"
    and "\<exists>d. getHistoryFields (Some O') (Some N) = Return d
          \<and> (if d = [] then \<not> c \<and> h1 = h else c \<and> h1 = h @ [\<lparr>fields' = d, signature = sig\<rparr>])"
proof -
  have z: "Time_IsZero Time_zero" by (simp add: Time_IsZero_def)
  show a: "After (timestamp sig) (timestamp (signature (last h)))"
    using assms by (auto simp: Audit_def split: if_splits)
  show "\<exists>d. getHistoryFields (Some O') (Some N) = Return d
          \<and> (if d = [] then \<not> c \<and> h1 = h else c \<and> h1 = h @ [\<lparr>fields' = d, signature = sig\<rparr>])"
  proof (cases "getHistoryFields (Some O') (Some N)")
    case (Panic msg)
    then show ?thesis using assms a z by (simp add: Audit_def GetFields_def live_object_def)
  next
    case (Return d)
    then show ?thesis using assms a z
      by (auto simp: Audit_def GetFields_def live_object_def addHistory_def split: if_splits)
  qed
qed

lemma Audit_creation:
  "Audit [] None (Some (live_object (Some s0))) sig0 = (Return (True, None), [creation_entry sig0])"
  by (simp add: Audit_def GetFields_def live_object_def Time_IsZero_def getHistoryFields_def
      addHistory_def creation_entry_def)

lemma After_trans: "After a b \<Longrightarrow> After b c \<Longrightarrow> After a c"
  by (simp add: After_def)

lemma sorted_wrt_last:
  assumes "sorted_wrt P xs" and "y \<in> set xs"
  shows "y = last xs \<or> P y (last xs)"
proof -
  have ne: "xs \<noteq> []" using assms(2) by auto
  note id = append_butlast_last_id[OF ne]
  have "sorted_wrt P (butlast xs @ [last xs])" using assms(1) by (simp only: id)
  then have "\<forall>x \<in> set (butlast xs). P x (last xs)" by (simp add: sorted_wrt_append)
  moreover have "y \<in> set (butlast xs @ [last xs])" using assms(2) by (simp only: id)
  ultimately show ?thesis by auto
qed

lemma invariant_creation:
  assumes "wellformed_state s0"
  shows "run_invariant (timestamp sig0) [creation_entry sig0] [(timestamp sig0, s0)] s0"
  unfolding run_invariant_def
  using assms by (auto simp: creation_entry_def After_def Before_def)

lemma invariant_newer:
  assumes inv: "run_invariant ts0 h snaps cur"
    and a: "After ts (timestamp (signature (last h)))"
  shows "\<And>y. y \<in> set (map fst snaps) \<Longrightarrow> After ts y"
proof -
  fix y assume y: "y \<in> set (map fst snaps)"
  have h: "h \<noteq> []" and m: "map (\<lambda>e. timestamp (signature e)) h = map fst snaps"
    and s: "sorted_wrt (\<lambda>a b. After b a) (map fst snaps)"
    using inv by (simp_all add: run_invariant_def)
  have "last (map fst snaps) = timestamp (signature (last h))"
    using h by (simp add: m[symmetric] last_map)
  then have "y = timestamp (signature (last h)) \<or> After (timestamp (signature (last h))) y"
    using sorted_wrt_last[OF s y] by simp
  then show "After ts y" using a After_trans by blast
qed

lemma invariant_step:
  assumes inv: "run_invariant ts0 h snaps cur"
    and sm: "same_mapping old cur" and wO: "wellformed_state old" and wN: "wellformed_state new"
    and A: "Audit h (Some (live_object (Some old))) (Some (live_object (Some new))) sig
              = (Return (c, None), h1)"
  shows "run_invariant ts0 h1 (if c then snaps @ [(timestamp sig, new)] else snaps) new"
proof -
  have h: "h \<noteq> []" and hd: "timestamp (signature (hd h)) = ts0"
    and m: "map (\<lambda>e. timestamp (signature e)) h = map fst snaps"
    and s: "sorted_wrt (\<lambda>a b. After b a) (map fst snaps)"
    and R: "\<And>fs t tRollback. distinct (map Name fs) \<Longrightarrow> same_mapping fs cur \<Longrightarrow> \<not> Before t ts0 \<Longrightarrow>
          \<exists>fs' target.
             RollbackTo_loop h False tRollback t (length h - 1) (Some fs) = Some fs'
             \<and> state_at snaps t = Some target
             \<and> distinct (map Name fs') \<and> same_mapping fs' target"
    using inv unfolding run_invariant_def by blast+
  note after = Audit_live(1)[OF h A]
  obtain d where g: "getHistoryFields (Some old) (Some new) = Return d"
    and res: "if d = [] then \<not> c \<and> h1 = h else c \<and> h1 = h @ [\<lparr>fields' = d, signature = sig\<rparr>]"
    using Audit_live(2)[OF h A] by blast
  show ?thesis
  proof (cases "d = []")
    case True
    then have c: "\<not> c" "h1 = h" using res by simp_all
    have "\<exists>fs' target.
             RollbackTo_loop h False tRollback t (length h - 1) (Some fs) = Some fs'
             \<and> state_at snaps t = Some target
             \<and> distinct (map Name fs') \<and> same_mapping fs' target"
      if fs: "distinct (map Name fs)" "same_mapping fs new" and t: "\<not> Before t ts0" for fs t tRollback
    proof -
      obtain fs1 where "undo_fields (Some fs) d = Some fs1" "same_mapping fs1 old"
        using undo_step[OF wO wN g fs] by blast
      then have "same_mapping fs old" using True by simp
      then have "same_mapping fs cur" using sm same_mapping_trans by blast
      then show ?thesis using R[OF fs(1) _ t] by blast
    qed
    then show ?thesis
      unfolding run_invariant_def using c h hd m s wN by auto
  next
    case False
    then have c: "c" "h1 = h @ [\<lparr>fields' = d, signature = sig\<rparr>]" using res by simp_all
    let ?e = "\<lparr>fields' = d, signature = sig\<rparr>"
    let ?ts = "timestamp sig"
    note newer = invariant_newer[OF inv after]
    have s1: "sorted_wrt (\<lambda>a b. After b a) (map fst (snaps @ [(?ts, new)]))"
      using s newer by (simp add: sorted_wrt_append)
    have hd1: "hd (h @ [?e]) = hd h" using h by simp
    have "\<exists>fs' target.
             RollbackTo_loop (h @ [?e]) False tRollback t (length (h @ [?e]) - 1) (Some fs) = Some fs'
             \<and> state_at (snaps @ [(?ts, new)]) t = Some target
             \<and> distinct (map Name fs') \<and> same_mapping fs' target"
      if fs: "distinct (map Name fs)" "same_mapping fs new" and t: "\<not> Before t ts0" for fs t tRollback
    proof (cases "After ?ts t")
      case True
      obtain fs1 where f1: "undo_fields (Some fs) d = Some fs1" "distinct (map Name fs1)"
        "same_mapping fs1 old"
        using undo_step[OF wO wN g fs] by blast
      have "same_mapping fs1 cur" using f1(3) sm same_mapping_trans by blast
      then obtain fs' target where
        "RollbackTo_loop h False tRollback t (length h - 1) (Some fs1) = Some fs'"
        "state_at snaps t = Some target" "distinct (map Name fs')" "same_mapping fs' target"
        using R[OF f1(2) _ t] by blast
      then show ?thesis
        using True f1(1) by (simp add: RollbackTo_loop_last[OF h] state_at_snoc)
    next
      case False
      have "\<not> After (timestamp (signature (h ! j))) t" if "j \<le> length h - 1" for j
      proof -
        have "j < length h" using that h by (cases h) auto
        then have "timestamp (signature (h ! j)) \<in> set (map fst snaps)"
          unfolding m[symmetric] by (simp add: image_iff) (use nth_mem in blast)
        then have "After ?ts (timestamp (signature (h ! j)))" by (rule newer)
        then show ?thesis using False by (simp add: After_def)
      qed
      then have "RollbackTo_loop h False tRollback t (length h - 1) (Some fs) = Some fs"
        by (intro RollbackTo_loop_skip) simp
      then show ?thesis
        using False fs by (simp add: RollbackTo_loop_last[OF h] state_at_snoc)
    qed
    then show ?thesis
      unfolding run_invariant_def using c hd hd1 m s1 wN by auto
  qed
qed

lemma update_run_invariant:
  "update_run h snaps cur steps = Some (h', snaps', cur') \<Longrightarrow> run_invariant ts0 h snaps cur
     \<Longrightarrow> run_invariant ts0 h' snaps' cur'"
proof (induction steps arbitrary: h snaps cur)
  case Nil
  then show ?case by simp
next
  case (Cons step steps)
  obtain sig old new where step: "step = (sig, old, new)" by (cases step)
  have ok: "same_mapping old cur" "wellformed_state old" "wellformed_state new"
    using Cons.prems(1) by (auto simp: step split: if_splits)
  obtain r h1 where A: "Audit h (Some (live_object (Some old))) (Some (live_object (Some new))) sig = (r, h1)"
    by (cases "Audit h (Some (live_object (Some old))) (Some (live_object (Some new))) sig")
  obtain c where c: "r = Return (c, None)"
    and rest: "update_run h1 (if c then snaps @ [(timestamp sig, new)] else snaps) new steps
                 = Some (h', snaps', cur')"
    using Cons.prems(1) ok A
    by (auto simp: step split: result.splits option.splits bool.splits prod.splits)
  have "run_invariant ts0 h1 (if c then snaps @ [(timestamp sig, new)] else snaps) new"
    using invariant_step[OF Cons.prems(2) ok] A c by simp
  then show ?case using Cons.IH[OF rest] by simp
qed

lemma audited_run_invariant:
  assumes "audited_run sig0 s0 steps = Some (h, snaps, cur)"
  shows "run_invariant (timestamp sig0) h snaps cur"
proof -
  have w: "wellformed_state s0" using assms by (auto simp: audited_run_def split: if_splits)
  then have "update_run [creation_entry sig0] [(timestamp sig0, s0)] s0 steps = Some (h, snaps, cur)"
    using assms by (simp add: audited_run_def Audit_creation)
  then show ?thesis using update_run_invariant invariant_creation[OF w] by blast
qed

subsection \<open>C1: rolling back to an audited state\<close>

text \<open>
  C1 as stated, for every history built by a creation audit and successful update audits:
  \<^verbatim>\<open>RollbackTo(obj, t)\<close> passes to \<^verbatim>\<open>SetFields\<close> the state audited at \<^verbatim>\<open>t\<close>. An object
  with no fields may return a nil slice from \<^verbatim>\<open>GetFields\<close>, and \<^verbatim>\<open>getHistoryFields\<close> takes a
  nil slice of old fields for a missing old object. Create such an object at time 1 and
  audit the addition of field \<^verbatim>\<open>a\<close> at time 2: both calls return \<^verbatim>\<open>(true, nil)\<close>, and the
  second entry is a creation entry, not the removal marker of \<^verbatim>\<open>a\<close>. Rolling the object
  back to time 1 then keeps \<^verbatim>\<open>a\<close> and adds a field with the empty name and the creation
  marker as value, where the state audited at time 1 has no field.
\<close>

theorem RollbackTo_nil_fields_counterexample:
  "Audit [] None (Some (live_object None)) (sig_at 1)
     = (Return (True, None), [creation_entry (sig_at 1)])
   \<and> Audit [creation_entry (sig_at 1)] (Some (live_object None))
         (Some (live_object (Some [\<lparr>Name = ''a'', Value = VInt 1\<rparr>]))) (sig_at 2)
     = (Return (True, None), [creation_entry (sig_at 1), creation_entry (sig_at 2)])
   \<and> RollbackTo [creation_entry (sig_at 1), creation_entry (sig_at 2)]
         (live_object (Some [\<lparr>Name = ''a'', Value = VInt 1\<rparr>])) (at_nanos 1)
     = (None, \<lparr>obj_fields = Some [\<lparr>Name = ''a'', Value = VInt 1\<rparr>,
                                  \<lparr>Name = '''', Value = VMagic magicValueHistoryCreation\<rparr>],
              obj_tRollback = at_nanos 1, obj_getErr = None, obj_setErr = None\<rparr>)"
  by (simp add: Audit_def GetFields_def SetFields_def live_object_def creation_entry_def sig_at_def
      NewSignature_def at_nanos_def After_def Before_def Time_IsZero_def getHistoryFields_def
      addHistory_def RollbackTo_def numeral_2_eq_2 undo_field_def slice_Set_def Set_def IndexOf_def elems_def Let_def
      magicValueHistoryCreation_def magicValueFieldRemoved_def)

text \<open>
  C1 as amended: let the states of a run be non-nil slices with unique names and no
  marker values, every audit of the run return a nil error, and the old object of every
  update hold the state of the previous audit up to \<^verbatim>\<open>equals\<close> (\<^const>\<open>audited_run\<close>). Take a
  live object whose methods succeed and whose fields are, as a mapping from unique names
  to values, the latest state audited, and a time \<^verbatim>\<open>t\<close> not before the creation timestamp.
  Then \<^verbatim>\<open>RollbackTo(obj, t)\<close> returns nil and has called \<^verbatim>\<open>SetFields\<close> with \<^verbatim>\<open>t\<close> and with
  fields of unique names that are, as a mapping and up to \<^verbatim>\<open>equals\<close>, the state audited at
  \<^verbatim>\<open>t\<close>: the state of the latest entry whose timestamp is not after \<^verbatim>\<open>t\<close>. The entries of
  the history carry the timestamps of the states recorded, and the state audited at the
  timestamp of an entry is the state after that update.
\<close>

theorem RollbackTo_audited_state:
  assumes run: "audited_run sig0 s0 steps = Some (h, snaps, cur)"
    and obj: "obj_fields obj = Some fs" "distinct (map Name fs)" "same_mapping fs cur"
    and live: "Time_IsZero (obj_tRollback obj)" "obj_getErr obj = None" "obj_setErr obj = None"
    and t: "\<not> Before t (timestamp sig0)"
  shows "(\<exists>target fs'.
            state_at snaps t = Some target
            \<and> RollbackTo h obj t = (None, obj\<lparr>obj_fields := Some fs', obj_tRollback := t\<rparr>)
            \<and> distinct (map Name fs') \<and> same_mapping fs' target)
         \<and> map (\<lambda>e. timestamp (signature e)) h = map fst snaps
         \<and> list_all (\<lambda>(ts, s). state_at snaps ts = Some s) snaps"
proof -
  note inv = audited_run_invariant[OF run]
  have h: "h \<noteq> []" and hd: "timestamp (signature (hd h)) = timestamp sig0"
    and m: "map (\<lambda>e. timestamp (signature e)) h = map fst snaps"
    and s: "sorted_wrt (\<lambda>a b. After b a) (map fst snaps)"
    using inv unfolding run_invariant_def by blast+
  obtain fs' target where r:
    "RollbackTo_loop h False (obj_tRollback obj) t (length h - 1) (Some fs) = Some fs'"
    "state_at snaps t = Some target" "distinct (map Name fs')" "same_mapping fs' target"
    using inv obj(2,3) t unfolding run_invariant_def by blast
  have "RollbackTo h obj t = (None, obj\<lparr>obj_fields := Some fs', obj_tRollback := t\<rparr>)"
    using h hd t obj(1) live r(1) by (simp add: RollbackTo_def GetFields_def SetFields_def)
  moreover have "list_all (\<lambda>(ts, s). state_at snaps ts = Some s) snaps"
    using state_at_exact[OF s] by (auto simp: list_all_iff)
  ultimately show ?thesis using r m by blast
qed

theorem RollbackTo_audited_state_witness:
  "audited_run (sig_at 1)
     [\<lparr>Name = ''a'', Value = VInt 1\<rparr>, \<lparr>Name = ''b'', Value = VString ''x''\<rparr>]
     [(sig_at 2,
       [\<lparr>Name = ''b'', Value = VString ''x''\<rparr>, \<lparr>Name = ''a'', Value = VInt 1\<rparr>],
       [\<lparr>Name = ''a'', Value = VInt 5\<rparr>, \<lparr>Name = ''c'', Value = VBool True\<rparr>]),
      (sig_at 3,
       [\<lparr>Name = ''a'', Value = VInt 5\<rparr>, \<lparr>Name = ''c'', Value = VBool True\<rparr>],
       [\<lparr>Name = ''c'', Value = VBool True\<rparr>, \<lparr>Name = ''a'', Value = VInt 5\<rparr>])]
   = Some ([creation_entry (sig_at 1),
            \<lparr>fields' = [\<lparr>Name = ''b'', Value = VString ''x''\<rparr>, \<lparr>Name = ''a'', Value = VInt 1\<rparr>,
                         \<lparr>Name = ''c'', Value = VMagic magicValueFieldRemoved\<rparr>],
               signature = sig_at 2\<rparr>],
           [(at_nanos 1, [\<lparr>Name = ''a'', Value = VInt 1\<rparr>, \<lparr>Name = ''b'', Value = VString ''x''\<rparr>]),
            (at_nanos 2, [\<lparr>Name = ''a'', Value = VInt 5\<rparr>, \<lparr>Name = ''c'', Value = VBool True\<rparr>])],
           [\<lparr>Name = ''c'', Value = VBool True\<rparr>, \<lparr>Name = ''a'', Value = VInt 5\<rparr>])
   \<and> (\<exists>fs'. RollbackTo
           [creation_entry (sig_at 1),
            \<lparr>fields' = [\<lparr>Name = ''b'', Value = VString ''x''\<rparr>, \<lparr>Name = ''a'', Value = VInt 1\<rparr>,
                         \<lparr>Name = ''c'', Value = VMagic magicValueFieldRemoved\<rparr>],
               signature = sig_at 2\<rparr>]
           (live_object (Some [\<lparr>Name = ''c'', Value = VBool True\<rparr>, \<lparr>Name = ''a'', Value = VInt 5\<rparr>]))
           (at_nanos 1)
         = (None, \<lparr>obj_fields = Some fs', obj_tRollback = at_nanos 1, obj_getErr = None, obj_setErr = None\<rparr>)
       \<and> distinct (map Name fs')
       \<and> same_mapping fs' [\<lparr>Name = ''a'', Value = VInt 1\<rparr>, \<lparr>Name = ''b'', Value = VString ''x''\<rparr>])"
proof -
  have run: "audited_run (sig_at 1)
     [\<lparr>Name = ''a'', Value = VInt 1\<rparr>, \<lparr>Name = ''b'', Value = VString ''x''\<rparr>]
     [(sig_at 2,
       [\<lparr>Name = ''b'', Value = VString ''x''\<rparr>, \<lparr>Name = ''a'', Value = VInt 1\<rparr>],
       [\<lparr>Name = ''a'', Value = VInt 5\<rparr>, \<lparr>Name = ''c'', Value = VBool True\<rparr>]),
      (sig_at 3,
       [\<lparr>Name = ''a'', Value = VInt 5\<rparr>, \<lparr>Name = ''c'', Value = VBool True\<rparr>],
       [\<lparr>Name = ''c'', Value = VBool True\<rparr>, \<lparr>Name = ''a'', Value = VInt 5\<rparr>])]
   = Some ([creation_entry (sig_at 1),
            \<lparr>fields' = [\<lparr>Name = ''b'', Value = VString ''x''\<rparr>, \<lparr>Name = ''a'', Value = VInt 1\<rparr>,
                         \<lparr>Name = ''c'', Value = VMagic magicValueFieldRemoved\<rparr>],
               signature = sig_at 2\<rparr>],
           [(at_nanos 1, [\<lparr>Name = ''a'', Value = VInt 1\<rparr>, \<lparr>Name = ''b'', Value = VString ''x''\<rparr>]),
            (at_nanos 2, [\<lparr>Name = ''a'', Value = VInt 5\<rparr>, \<lparr>Name = ''c'', Value = VBool True\<rparr>])],
           [\<lparr>Name = ''c'', Value = VBool True\<rparr>, \<lparr>Name = ''a'', Value = VInt 5\<rparr>])"
    by code_simp
  have st: "state_at
       [(at_nanos 1, [\<lparr>Name = ''a'', Value = VInt 1\<rparr>, \<lparr>Name = ''b'', Value = VString ''x''\<rparr>]),
        (at_nanos 2, [\<lparr>Name = ''a'', Value = VInt 5\<rparr>, \<lparr>Name = ''c'', Value = VBool True\<rparr>])]
       (at_nanos 1)
     = Some [\<lparr>Name = ''a'', Value = VInt 1\<rparr>, \<lparr>Name = ''b'', Value = VString ''x''\<rparr>]"
    by (simp add: After_def at_nanos_def)
  have sm: "same_mapping [\<lparr>Name = ''c'', Value = VBool True\<rparr>, \<lparr>Name = ''a'', Value = VInt 5\<rparr>]
              [\<lparr>Name = ''c'', Value = VBool True\<rparr>, \<lparr>Name = ''a'', Value = VInt 5\<rparr>]"
    by (rule same_mapping_refl)
  have z: "Time_IsZero Time_zero" by (simp add: Time_IsZero_def)
  have b: "\<not> Before (at_nanos 1) (timestamp (sig_at 1))"
    by (simp add: Before_def sig_at_def NewSignature_def)
  have "\<exists>target fs'.
          state_at
            [(at_nanos 1, [\<lparr>Name = ''a'', Value = VInt 1\<rparr>, \<lparr>Name = ''b'', Value = VString ''x''\<rparr>]),
             (at_nanos 2, [\<lparr>Name = ''a'', Value = VInt 5\<rparr>, \<lparr>Name = ''c'', Value = VBool True\<rparr>])]
            (at_nanos 1) = Some target
          \<and> RollbackTo
              [creation_entry (sig_at 1),
               \<lparr>fields' = [\<lparr>Name = ''b'', Value = VString ''x''\<rparr>, \<lparr>Name = ''a'', Value = VInt 1\<rparr>,
                            \<lparr>Name = ''c'', Value = VMagic magicValueFieldRemoved\<rparr>],
                  signature = sig_at 2\<rparr>]
              (live_object (Some [\<lparr>Name = ''c'', Value = VBool True\<rparr>, \<lparr>Name = ''a'', Value = VInt 5\<rparr>]))
              (at_nanos 1)
            = (None, live_object (Some [\<lparr>Name = ''c'', Value = VBool True\<rparr>, \<lparr>Name = ''a'', Value = VInt 5\<rparr>])
                       \<lparr>obj_fields := Some fs', obj_tRollback := at_nanos 1\<rparr>)
          \<and> distinct (map Name fs') \<and> same_mapping fs' target"
    using RollbackTo_audited_state[OF run, where t = "at_nanos 1"
        and obj = "live_object (Some [\<lparr>Name = ''c'', Value = VBool True\<rparr>, \<lparr>Name = ''a'', Value = VInt 5\<rparr>])"
        and fs = "[\<lparr>Name = ''c'', Value = VBool True\<rparr>, \<lparr>Name = ''a'', Value = VInt 5\<rparr>]"]
      sm z b
    by (auto simp: live_object_def simp del: state_at.simps)
  then have "\<exists>fs'. RollbackTo
           [creation_entry (sig_at 1),
            \<lparr>fields' = [\<lparr>Name = ''b'', Value = VString ''x''\<rparr>, \<lparr>Name = ''a'', Value = VInt 1\<rparr>,
                         \<lparr>Name = ''c'', Value = VMagic magicValueFieldRemoved\<rparr>],
               signature = sig_at 2\<rparr>]
           (live_object (Some [\<lparr>Name = ''c'', Value = VBool True\<rparr>, \<lparr>Name = ''a'', Value = VInt 5\<rparr>]))
           (at_nanos 1)
         = (None, \<lparr>obj_fields = Some fs', obj_tRollback = at_nanos 1, obj_getErr = None, obj_setErr = None\<rparr>)
       \<and> distinct (map Name fs')
       \<and> same_mapping fs' [\<lparr>Name = ''a'', Value = VInt 1\<rparr>, \<lparr>Name = ''b'', Value = VString ''x''\<rparr>]"
    unfolding st by (simp add: live_object_def)
  then show ?thesis using run by blast
qed

subsection \<open>C2: the order of the reverse-delta\<close>

text \<open>
  C2 as the specification words it: for a non-nil old slice \<open>O\<close> the reverse-delta is the
  removed group, then the changed group, then the added group. The code builds the
  second and third group in one loop over \<open>N\<close>, so an added field that comes before a
  changed field in \<open>N\<close> comes before it in the result: with \<open>O = [b: 1]\<close> and
  \<open>N = [a: 9, b: 2]\<close> the code returns the marker for \<open>a\<close> first and the old \<open>b\<close> second,
  the specification's order is the reverse.
\<close>

theorem getHistoryFields_order_counterexample:
  "getHistoryFields (Some [\<lparr>Name = ''b'', Value = VInt 1\<rparr>])
       (Some [\<lparr>Name = ''a'', Value = VInt 9\<rparr>, \<lparr>Name = ''b'', Value = VInt 2\<rparr>])
     = Return [\<lparr>Name = ''a'', Value = VMagic magicValueFieldRemoved\<rparr>, \<lparr>Name = ''b'', Value = VInt 1\<rparr>]
   \<and> spec_reverse_delta [\<lparr>Name = ''b'', Value = VInt 1\<rparr>]
       [\<lparr>Name = ''a'', Value = VInt 9\<rparr>, \<lparr>Name = ''b'', Value = VInt 2\<rparr>]
     = [\<lparr>Name = ''b'', Value = VInt 1\<rparr>, \<lparr>Name = ''a'', Value = VMagic magicValueFieldRemoved\<rparr>]
   \<and> getHistoryFields (Some [\<lparr>Name = ''b'', Value = VInt 1\<rparr>])
       (Some [\<lparr>Name = ''a'', Value = VInt 9\<rparr>, \<lparr>Name = ''b'', Value = VInt 2\<rparr>])
     \<noteq> Return (spec_reverse_delta [\<lparr>Name = ''b'', Value = VInt 1\<rparr>]
       [\<lparr>Name = ''a'', Value = VInt 9\<rparr>, \<lparr>Name = ''b'', Value = VInt 2\<rparr>])"
  by (simp add: getHistoryFields_def elems_def Contains_def IndexOf_def spec_reverse_delta_def
      removed_group_def changed_entry_def added_entry_def)

text \<open>
  C2 as amended: for every non-nil old slice \<open>O\<close> whose values are of the eleven types
  that \<^verbatim>\<open>equals\<close> compares, and every new slice \<open>N\<close> (nil or not), \<^verbatim>\<open>getHistoryFields\<close>
  returns first the fields of \<open>O\<close> whose name \<open>N\<close> lacks, in the order of \<open>O\<close>, and then, in
  one pass over \<open>N\<close> in the order of \<open>N\<close>, the old field for a name that \<open>O\<close> has with another
  value and the removal marker for a name that \<open>O\<close> lacks. The removed group comes
  first; changed and added entries follow in the order of \<open>N\<close>, interleaved. The result
  has the same entries as the specification's three groups, each as often.
\<close>

theorem getHistoryFields_one_pass:
  assumes "\<forall>field \<in> set O'. comparable (Value field)"
  shows "getHistoryFields (Some O') N = Return (one_pass_reverse_delta O' (elems N))
         \<and> mset (one_pass_reverse_delta O' (elems N)) = mset (spec_reverse_delta O' (elems N))"
proof -
  have "mset (concat (map (\<lambda>n. changed_entry O' n @ added_entry O' n) M)) =
        mset (concat (map (changed_entry O') M)) + mset (concat (map (added_entry O') M))" for M
    by (induction M) simp_all
  then show ?thesis
    using added_or_updated_eq[OF assms]
    by (simp add: getHistoryFields_def removed_fields_eq one_pass_reverse_delta_def spec_reverse_delta_def)
qed

theorem getHistoryFields_one_pass_witness:
  "comparable (VInt 1)
   \<and> getHistoryFields (Some [\<lparr>Name = ''b'', Value = VInt 1\<rparr>])
       (Some [\<lparr>Name = ''a'', Value = VInt 9\<rparr>, \<lparr>Name = ''b'', Value = VInt 2\<rparr>])
     = Return [\<lparr>Name = ''a'', Value = VMagic magicValueFieldRemoved\<rparr>, \<lparr>Name = ''b'', Value = VInt 1\<rparr>]"
  using getHistoryFields_one_pass[of "[\<lparr>Name = ''b'', Value = VInt 1\<rparr>]"
      "Some [\<lparr>Name = ''a'', Value = VInt 9\<rparr>, \<lparr>Name = ''b'', Value = VInt 2\<rparr>]"]
  by (simp add: elems_def Contains_def IndexOf_def one_pass_reverse_delta_def
      removed_group_def changed_entry_def added_entry_def)

subsection \<open>C3: Deserialize after Serialize\<close>

text \<open>
  C3: take a history whose values are of the twelve shapes and whose signatures are
  serializable (zone offset 0, timestamp zero or within the bounds, an auditor with no
  slash in kind or id), and any encoding of the I/O layer with a reader that decodes it.
  Then \<^verbatim>\<open>Serialize\<close> succeeds and writes the stream the specification frames;
  \<^verbatim>\<open>Deserialize\<close> of these bytes, into a receiver of any earlier content, succeeds and
  leaves a history equal to the first: the same entries, signatures, field names and
  values in the same order. The name table is the field names in the order of their
  first occurrence, each once, and every field's index in the stream is in range and
  points at its name.
\<close>

theorem Deserialize_Serialize:
  assumes "decodes R E" and "serializable_history hs"
  shows "Serialize E hs = (wire_history E hs, None)
         \<and> Deserialize R prev (fst (Serialize E hs)) = (Return None, hs)
         \<and> intern_history [] hs = first_occurrences (field_names hs)
         \<and> list_all (\<lambda>h. list_all (\<lambda>field.
               0 \<le> strings_IndexOf (intern_history [] hs) (Name field)
               \<and> strings_IndexOf (intern_history [] hs) (Name field) < int (length (intern_history [] hs))
               \<and> intern_history [] hs ! nat (strings_IndexOf (intern_history [] hs) (Name field)) = Name field)
             (fields' h)) hs"
proof -
  have S: "Serialize E hs = (wire_history E hs, None)"
    by (simp add: Serialize_def SerializeTo_buffer[OF assms(2)])
  have D: "Deserialize R prev (fst (Serialize E hs)) = (Return None, hs)"
    by (simp add: S Deserialize_def DeserializeFrom_wire[OF assms])
  have I: "list_all (\<lambda>h. list_all (\<lambda>field.
               0 \<le> strings_IndexOf (intern_history [] hs) (Name field)
               \<and> strings_IndexOf (intern_history [] hs) (Name field) < int (length (intern_history [] hs))
               \<and> intern_history [] hs ! nat (strings_IndexOf (intern_history [] hs) (Name field)) = Name field)
             (fields' h)) hs"
    unfolding list_all_iff intern_history_first_occurrences
  proof (intro ballI)
    fix h field assume "h \<in> set hs" "field \<in> set (fields' h)"
    then have "Name field \<in> set (first_occurrences (field_names hs))"
      by (auto simp: set_first_occurrences field_names_def)
    then show "0 \<le> strings_IndexOf (first_occurrences (field_names hs)) (Name field)
        \<and> strings_IndexOf (first_occurrences (field_names hs)) (Name field)
            < int (length (first_occurrences (field_names hs)))
        \<and> first_occurrences (field_names hs)
            ! nat (strings_IndexOf (first_occurrences (field_names hs)) (Name field)) = Name field"
      by (rule strings_IndexOf_mem)
  qed
  show ?thesis using S D I intern_history_first_occurrences by blast
qed

theorem Deserialize_Serialize_witness:
  "decodes item_reader item_encoding
   \<and> serializable_history example_history
   \<and> Deserialize item_reader [] (fst (Serialize item_encoding example_history))
       = (Return None, example_history)
   \<and> intern_history [] example_history =
       ['''', ''field0'', ''field1'', ''field2'', ''field3'', ''field4'', ''field5'', ''field6'']"
proof -
  have names: "first_occurrences (field_names example_history) =
       ['''', ''field0'', ''field1'', ''field2'', ''field3'', ''field4'', ''field5'', ''field6'']"
    by (simp add: first_occurrences_def field_names_def example_history_def creation_entry_def)
  show ?thesis
    using Deserialize_Serialize[OF decodes_items example_history_serializable, of "[]"]
      decodes_items example_history_serializable names
    by metis
qed

subsection \<open>C4: what DeserializeFrom does with a malformed stream\<close>

text \<open>
  C4: deserialization returns an error when the version byte is not 1, when a field's
  name index is out of the range of the name table, and when a type tag is not one of
  the twelve. The first and the third hold for every reader (\<open>DeserializeFrom_version\<close>,
  \<open>read_value_unknown_tag\<close>). The second does not: \<^verbatim>\<open>fieldNames[nameIndex]\<close> is indexed with
  no test before it, and the run-time panics (\<open>read_fields_nameIndex\<close>). Here the three
  on concrete streams: version 2; a stream of no names and one entry whose one field has
  the type tag 12; the same stream with a known tag, whose name index 0 is out of the
  range of the empty name table.
\<close>

theorem DeserializeFrom_nameIndex_panics:
  "DeserializeFrom item_reader [] [IByte 2] =
     (Return (Some (Errorf ''invalid version number: %d'' [ArgByte 2])), [])
   \<and> DeserializeFrom item_reader []
       [IByte 1, IInt 1, IString ''x'', IInt 1, IInt 1, IString ''/'', IInt64 0, IInt 1, IInt 0, IByte 12]
     = (Return (Some (Errorf ''invalid value type: %d'' [ArgByte 12])), [zero_entry])
   \<and> DeserializeFrom item_reader []
       [IByte 1, IInt 0, IInt 1, IInt 1, IString ''/'', IInt64 0, IInt 1, IInt 0, IByte 1, IString ''x'']
     = (Panic ''index out of range'', [zero_entry])"
proof -
  have r: "ReadByteValue item_reader (IByte b # rest) = (b, None, rest)"
    "ReadInt item_reader (IInt i # rest) = (i, None, rest)"
    "ReadString item_reader (IString s # rest) = (s, None, rest)" for b i s rest
    by (simp_all add: item_reader_def)
  have one: "nat 1 = Suc 0" by simp
  show ?thesis
    by (simp add: DeserializeFrom_def r zero_signature_items read_value_def one)
qed

subsection \<open>C5: when RollbackTo fails\<close>

text \<open>
  C5: for an object whose \<^verbatim>\<open>GetFields\<close> and \<^verbatim>\<open>SetFields\<close> succeed, \<^verbatim>\<open>RollbackTo(obj, t)\<close>
  returns an error exactly when the history is empty (the empty-history message), or
  \<open>t\<close> is before the timestamp of the first entry (the one value \<^verbatim>\<open>ErrDidNotExist\<close>), or
  the object is rolled back to a time before \<open>t\<close> (the monotonicity message with both
  times); the three are tested in this order. In every other case, so for every \<open>t\<close> not
  before the creation time and not after the rollback time of a rolled-back object, it
  returns nil and the object's rollback time is \<open>t\<close> afterwards. A call that fails leaves
  the object as it was.
\<close>

theorem RollbackTo_errors:
  assumes "obj_getErr obj = None" and "obj_setErr obj = None"
  shows "fst (RollbackTo vals obj t) =
           (if vals = [] then Some (Errorf ''invalid state: empty history'' [])
            else if Before t (timestamp (signature (hd vals))) then Some ErrDidNotExist
            else if \<not> Time_IsZero (obj_tRollback obj) \<and> Before (obj_tRollback obj) t then
              Some (Errorf
                ''object is already rolled back to a timestamp earlier than t (tRollback: %s, t: %s)''
                [ArgTime (obj_tRollback obj), ArgTime t])
            else None)
         \<and> (fst (RollbackTo vals obj t) \<noteq> None \<longleftrightarrow>
              vals = [] \<or> Before t (timestamp (signature (hd vals)))
              \<or> (\<not> Time_IsZero (obj_tRollback obj) \<and> Before (obj_tRollback obj) t))
         \<and> (fst (RollbackTo vals obj t) = None \<longrightarrow> obj_tRollback (snd (RollbackTo vals obj t)) = t)
         \<and> (fst (RollbackTo vals obj t) \<noteq> None \<longrightarrow> snd (RollbackTo vals obj t) = obj)"
  using assms by (simp add: RollbackTo_def GetFields_def SetFields_def Let_def)

theorem RollbackTo_errors_witness:
  "RollbackTo [] (live_object (Some [])) (at_nanos 7) =
     (Some (Errorf ''invalid state: empty history'' []), live_object (Some []))
   \<and> RollbackTo [creation_entry (sig_at 5)] (live_object (Some [])) (at_nanos 4) =
     (Some ErrDidNotExist, live_object (Some []))
   \<and> RollbackTo [creation_entry (sig_at 5)] ((live_object (Some []))\<lparr>obj_tRollback := at_nanos 6\<rparr>) (at_nanos 7) =
     (Some (Errorf
        ''object is already rolled back to a timestamp earlier than t (tRollback: %s, t: %s)''
        [ArgTime (at_nanos 6), ArgTime (at_nanos 7)]),
      (live_object (Some []))\<lparr>obj_tRollback := at_nanos 6\<rparr>)
   \<and> fst (RollbackTo [creation_entry (sig_at 5)] ((live_object (Some []))\<lparr>obj_tRollback := at_nanos 7\<rparr>) (at_nanos 6)) = None
   \<and> obj_tRollback (snd (RollbackTo [creation_entry (sig_at 5)]
        ((live_object (Some []))\<lparr>obj_tRollback := at_nanos 7\<rparr>) (at_nanos 6))) = at_nanos 6
   \<and> fst (RollbackTo [creation_entry (sig_at 5)] (live_object (Some [])) (at_nanos 5)) = None
   \<and> obj_tRollback (snd (RollbackTo [creation_entry (sig_at 5)] (live_object (Some [])) (at_nanos 5))) = at_nanos 5"
proof -
  have z: "nanos Time_zero = -62135596800000000000"
    by (simp add: Time_zero_def Date_def days_from_civil_def)
  have l: "obj_getErr (live_object fs) = None" "obj_setErr (live_object fs) = None"
     "obj_tRollback (live_object fs) = Time_zero" for fs
    by (simp_all add: live_object_def)
  show ?thesis
  using
    RollbackTo_errors[where obj = "live_object (Some [])" and vals = "[]" and t = "at_nanos 7"]
    RollbackTo_errors[where obj = "live_object (Some [])" and vals = "[creation_entry (sig_at 5)]" and t = "at_nanos 4"]
    RollbackTo_errors[where obj = "(live_object (Some []))\<lparr>obj_tRollback := at_nanos 6\<rparr>"
       and vals = "[creation_entry (sig_at 5)]" and t = "at_nanos 7"]
    RollbackTo_errors[where obj = "(live_object (Some []))\<lparr>obj_tRollback := at_nanos 7\<rparr>"
       and vals = "[creation_entry (sig_at 5)]" and t = "at_nanos 6"]
    RollbackTo_errors[where obj = "live_object (Some [])" and vals = "[creation_entry (sig_at 5)]" and t = "at_nanos 5"]
  by (simp add: l z prod_eq_iff creation_entry_def sig_at_def NewSignature_def at_nanos_def
      Before_def Time_IsZero_def)
qed

subsection \<open>C6: the precondition errors of Audit\<close>

text \<open>
  C6: \<^verbatim>\<open>Audit\<close> checks its preconditions in order and fails with the stated messages.
  On a non-empty history a nil \<^verbatim>\<open>oldObj\<close> gives the first message, whatever the
  signature and the new object are. With an \<^verbatim>\<open>oldObj\<close>, a signature timestamp that is
  not after the latest entry's gives the second message with the two timestamps as its
  arguments, whatever the objects hold. Once both checks pass (or the history is empty),
  an old object whose \<^verbatim>\<open>GetFields\<close> succeeds with a nonzero rollback time gives the
  third message, and so does a new object, once the old object is absent on an empty
  history or live.
\<close>

theorem Audit_precondition_errors:
  "(vals \<noteq> [] \<longrightarrow>
      Audit vals None newObj sig =
        (Return (False, Some (Errorf
           ''oldObj cannot be nil when there is an audit history. Only allowed on initial audit'' [])),
         vals))
   \<and> (vals \<noteq> [] \<and> \<not> After (timestamp sig) (timestamp (signature (last vals))) \<longrightarrow>
      Audit vals (Some oldObj) newObj sig =
        (Return (False, Some (Errorf
           ''invalid signature timestamp: must be after latest audit timestamp (signature: %v, latest audit: %v)''
           [ArgTime (timestamp sig), ArgTime (timestamp (signature (last vals)))])),
         vals))
   \<and> ((vals = [] \<or> After (timestamp sig) (timestamp (signature (last vals))))
       \<and> obj_getErr oldObj = None \<and> \<not> Time_IsZero (obj_tRollback oldObj) \<longrightarrow>
      Audit vals (Some oldObj) newObj sig =
        (Return (False, Some (Errorf ''cannot audit based on a rolled back object'' [])), vals))
   \<and> ((vals = [] \<or> After (timestamp sig) (timestamp (signature (last vals))))
       \<and> obj_getErr oldObj = None \<and> Time_IsZero (obj_tRollback oldObj)
       \<and> obj_getErr new = None \<and> \<not> Time_IsZero (obj_tRollback new) \<longrightarrow>
      Audit vals (Some oldObj) (Some new) sig =
        (Return (False, Some (Errorf ''cannot audit based on a rolled back object'' [])), vals))
   \<and> (vals = [] \<and> obj_getErr new = None \<and> \<not> Time_IsZero (obj_tRollback new) \<longrightarrow>
      Audit vals None (Some new) sig =
        (Return (False, Some (Errorf ''cannot audit based on a rolled back object'' [])), vals))"
  by (auto simp: Audit_def GetFields_def Time_IsZero_def)

theorem Audit_precondition_errors_witness:
  "Audit [creation_entry (sig_at 5)] None (Some (live_object (Some []))) (sig_at 9) =
     (Return (False, Some (Errorf
        ''oldObj cannot be nil when there is an audit history. Only allowed on initial audit'' [])),
      [creation_entry (sig_at 5)])
   \<and> Audit [creation_entry (sig_at 5)] (Some (live_object (Some []))) (Some (live_object (Some [])))
        (sig_at 5) =
     (Return (False, Some (Errorf
        ''invalid signature timestamp: must be after latest audit timestamp (signature: %v, latest audit: %v)''
        [ArgTime (at_nanos 5), ArgTime (at_nanos 5)])),
      [creation_entry (sig_at 5)])
   \<and> Audit [creation_entry (sig_at 5)] (Some ((live_object (Some []))\<lparr>obj_tRollback := at_nanos 3\<rparr>))
        (Some (live_object (Some []))) (sig_at 9) =
     (Return (False, Some (Errorf ''cannot audit based on a rolled back object'' [])),
      [creation_entry (sig_at 5)])
   \<and> Audit [creation_entry (sig_at 5)] (Some (live_object (Some [])))
        (Some ((live_object (Some []))\<lparr>obj_tRollback := at_nanos 3\<rparr>)) (sig_at 9) =
     (Return (False, Some (Errorf ''cannot audit based on a rolled back object'' [])),
      [creation_entry (sig_at 5)])
   \<and> Audit [] None (Some ((live_object (Some []))\<lparr>obj_tRollback := at_nanos 3\<rparr>)) (sig_at 9) =
     (Return (False, Some (Errorf ''cannot audit based on a rolled back object'' [])), [])"
  using
    Audit_precondition_errors[where vals = "[creation_entry (sig_at 5)]"
      and newObj = "Some (live_object (Some []))" and sig = "sig_at 9"]
    Audit_precondition_errors[where vals = "[creation_entry (sig_at 5)]"
      and oldObj = "live_object (Some [])" and newObj = "Some (live_object (Some []))" and sig = "sig_at 5"]
    Audit_precondition_errors[where vals = "[creation_entry (sig_at 5)]"
      and oldObj = "(live_object (Some []))\<lparr>obj_tRollback := at_nanos 3\<rparr>"
      and newObj = "Some (live_object (Some []))" and sig = "sig_at 9"]
    Audit_precondition_errors[where vals = "[creation_entry (sig_at 5)]"
      and oldObj = "live_object (Some [])"
      and new = "(live_object (Some []))\<lparr>obj_tRollback := at_nanos 3\<rparr>" and sig = "sig_at 9"]
    Audit_precondition_errors[where vals = "[]"
      and new = "(live_object (Some []))\<lparr>obj_tRollback := at_nanos 3\<rparr>" and sig = "sig_at 9"]
  by (simp add: creation_entry_def sig_at_def NewSignature_def at_nanos_def live_object_def
      After_def Time_IsZero_def Time_zero_def Date_def days_from_civil_def)

subsection \<open>C7: auditing an unchanged object\<close>

text \<open>
  C7 as stated, for every live object state: auditing the object against an identical
  copy returns \<^verbatim>\<open>(false, nil)\<close> and leaves the history as it was. A live object whose
  \<^verbatim>\<open>GetFields\<close> returns a nil slice is taken for a missing old object by
  \<^verbatim>\<open>getHistoryFields\<close> (its test reads \<^verbatim>\<open>oldFields == nil\<close>): audited against itself on
  a history of one entry, with a later signature, the call returns \<^verbatim>\<open>(true, nil)\<close> and
  appends a second creation entry.
\<close>

theorem Audit_nil_fields_counterexample:
  "Audit [creation_entry (sig_at 1)] (Some (live_object None)) (Some (live_object None)) (sig_at 2)
     = (Return (True, None), [creation_entry (sig_at 1), creation_entry (sig_at 2)])"
  by (simp add: Audit_def GetFields_def live_object_def creation_entry_def sig_at_def NewSignature_def
      at_nanos_def After_def Time_IsZero_def getHistoryFields_def addHistory_def)

text \<open>
  C7 as amended: take a live object whose \<^verbatim>\<open>GetFields\<close> returns a non-nil slice with
  unique names and values that \<^verbatim>\<open>equals\<close> finds equal to themselves (the eleven
  comparable types, a NaN excepted), a copy that returns the same fields in any order,
  and a signature that the history accepts. Then \<^verbatim>\<open>Audit(copy, obj, sig)\<close> returns
  \<^verbatim>\<open>(false, nil)\<close> and leaves the history as it was. And for every call of \<^verbatim>\<open>Audit\<close>, an
  entry is appended if and only if it returns \<^verbatim>\<open>changed = true\<close>.
\<close>

theorem Audit_identical_copy:
  assumes "obj_fields old = Some fs" and "obj_fields new = Some fs'"
    and "mset fs' = mset fs" and "distinct (map Name fs)"
    and "\<forall>f \<in> set fs. equals (Value f) (Value f) = Return True"
    and "obj_getErr old = None" and "Time_IsZero (obj_tRollback old)"
    and "obj_getErr new = None" and "Time_IsZero (obj_tRollback new)"
    and "vals = [] \<or> After (timestamp sig) (timestamp (signature (last vals)))"
  shows "Audit vals (Some old) (Some new) sig = (Return (False, None), vals)
         \<and> ((\<exists>h. snd (Audit vals' oldObj newObj sig') = vals' @ [h])
              \<longleftrightarrow> (\<exists>err. fst (Audit vals' oldObj newObj sig') = Return (True, err)))"
proof -
  have "\<forall>f \<in> set fs. comparable (Value f)"
    using assms(5) self_equal_comparable by blast
  then have "getHistoryFields (Some fs) (Some fs') = Return []"
    using one_pass_same_fields[OF assms(3,4,5)] by (simp add: getHistoryFields_Some elems_def)
  then have A: "Audit vals (Some old) (Some new) sig = (Return (False, None), vals)"
    using assms by (auto simp: Audit_def GetFields_def)
  have B: "(\<exists>h. snd (Audit vals' oldObj newObj sig') = vals' @ [h])
              \<longleftrightarrow> (\<exists>err. fst (Audit vals' oldObj newObj sig') = Return (True, err))"
    using Audit_outcome[of vals' oldObj newObj sig'] by auto
  show ?thesis using A B by blast
qed

theorem Audit_identical_copy_witness:
  "Audit [creation_entry (sig_at 1)]
     (Some (live_object (Some [\<lparr>Name = ''Str'', Value = VString ''2''\<rparr>, \<lparr>Name = ''Int'', Value = VInt 1\<rparr>])))
     (Some (live_object (Some [\<lparr>Name = ''Int'', Value = VInt 1\<rparr>, \<lparr>Name = ''Str'', Value = VString ''2''\<rparr>])))
     (sig_at 2)
   = (Return (False, None), [creation_entry (sig_at 1)])"
proof -
  have "Time_IsZero Time_zero" by (simp add: Time_IsZero_def)
  moreover have "After (at_nanos 2) (at_nanos 1)" by (simp add: After_def at_nanos_def)
  ultimately show ?thesis
    using Audit_identical_copy[where
      old = "live_object (Some [\<lparr>Name = ''Str'', Value = VString ''2''\<rparr>, \<lparr>Name = ''Int'', Value = VInt 1\<rparr>])"
      and fs = "[\<lparr>Name = ''Str'', Value = VString ''2''\<rparr>, \<lparr>Name = ''Int'', Value = VInt 1\<rparr>]"
      and new = "live_object (Some [\<lparr>Name = ''Int'', Value = VInt 1\<rparr>, \<lparr>Name = ''Str'', Value = VString ''2''\<rparr>])"
      and fs' = "[\<lparr>Name = ''Int'', Value = VInt 1\<rparr>, \<lparr>Name = ''Str'', Value = VString ''2''\<rparr>]"
      and vals = "[creation_entry (sig_at 1)]" and sig = "sig_at 2"]
    by (simp add: live_object_def creation_entry_def sig_at_def NewSignature_def)
qed

subsection \<open>C8: the timestamps the signature codec accepts\<close>

text \<open>
  C8: \<^verbatim>\<open>Signature.Serialize\<close> succeeds exactly when the timestamp has zone offset 0 and is
  the zero time or lies between \<^verbatim>\<open>minAllowed\<close> (1970-01-01T00:00:00.000000001Z) and
  \<^verbatim>\<open>maxAllowed\<close> (2200-01-01T00:00:00Z), both ends included. A timestamp with another zone
  offset is refused with the invalid-timestamp error that carries the offset, whatever
  the instant; a timestamp with offset 0 that is neither zero nor in bounds is refused
  with the out-of-bounds error that carries the timestamp. A failed call returns no bytes.
  What a successful call writes is the version 1, the encoded auditor and one \<^verbatim>\<open>int64\<close>:
  0 for the zero time, \<^verbatim>\<open>UnixNano()\<close> otherwise, which for a time in bounds is the exact
  count of nanoseconds since the epoch. The two bounds serialize; 1970-01-01T00:00:00Z,
  which is not the zero time, and 2200-01-01T00:00:00.000000001Z fail.
\<close>

theorem Signature_Serialize_bounds:
  "Signature_Serialize E sig =
     (if offset (timestamp sig) \<noteq> 0 then
        ([], Some (Errorf ''invalid signature timestamp: must be in zone with offset = 0, was %s (%d)''
                    [ArgString '''', ArgInt (offset (timestamp sig))]))
      else if Time_IsZero (timestamp sig) then
        (encInt E 1 @ encString E (Encode (auditor sig)) @ encInt64 E 0, None)
      else if \<not> Before (timestamp sig) minAllowed \<and> \<not> After (timestamp sig) maxAllowed then
        (encInt E 1 @ encString E (Encode (auditor sig)) @ encInt64 E (UnixNano (timestamp sig)), None)
      else ([], Some (Errorf ''signature timestamp %s is out of bounds'' [ArgTime (timestamp sig)])))
   \<and> (snd (Signature_Serialize E sig) = None \<longleftrightarrow>
        offset (timestamp sig) = 0
        \<and> (Time_IsZero (timestamp sig)
            \<or> \<not> Before (timestamp sig) minAllowed \<and> \<not> After (timestamp sig) maxAllowed))
   \<and> (\<not> Before (timestamp sig) minAllowed \<and> \<not> After (timestamp sig) maxAllowed \<longrightarrow>
        sint (UnixNano (timestamp sig)) = nanos (timestamp sig))
   \<and> snd (Signature_Serialize E (NewSignature a (Date 1970 1 1 0 0 0 1))) = None
   \<and> snd (Signature_Serialize E (NewSignature a (Date 2200 1 1 0 0 0 0))) = None
   \<and> \<not> Time_IsZero (Date 1970 1 1 0 0 0 0)
   \<and> snd (Signature_Serialize E (NewSignature a (Date 1970 1 1 0 0 0 0))) =
       Some (Errorf ''signature timestamp %s is out of bounds'' [ArgTime (Date 1970 1 1 0 0 0 0)])
   \<and> snd (Signature_Serialize E (NewSignature a (Date 2200 1 1 0 0 0 1))) =
       Some (Errorf ''signature timestamp %s is out of bounds'' [ArgTime (Date 2200 1 1 0 0 0 1)])"
proof -
  have main: "Signature_Serialize E sig =
     (if offset (timestamp sig) \<noteq> 0 then
        ([], Some (Errorf ''invalid signature timestamp: must be in zone with offset = 0, was %s (%d)''
                    [ArgString '''', ArgInt (offset (timestamp sig))]))
      else if Time_IsZero (timestamp sig) then
        (encInt E 1 @ encString E (Encode (auditor sig)) @ encInt64 E 0, None)
      else if \<not> Before (timestamp sig) minAllowed \<and> \<not> After (timestamp sig) maxAllowed then
        (encInt E 1 @ encString E (Encode (auditor sig)) @ encInt64 E (UnixNano (timestamp sig)), None)
      else ([], Some (Errorf ''signature timestamp %s is out of bounds'' [ArgTime (timestamp sig)])))"
    for sig
    by (simp add: Signature_Serialize_def SerializeToBufRW_def and_then_def buffer_writer_simps Let_def)
  have accepted: "snd (Signature_Serialize E sig) = None \<longleftrightarrow>
        offset (timestamp sig) = 0
        \<and> (Time_IsZero (timestamp sig)
            \<or> \<not> Before (timestamp sig) minAllowed \<and> \<not> After (timestamp sig) maxAllowed)"
    unfolding main[of sig] by simp
  have d: "nanos (Date 1970 1 1 0 0 0 1) = 1" "nanos (Date 2200 1 1 0 0 0 0) = 7258118400000000000"
    "nanos (Date 1970 1 1 0 0 0 0) = 0" "nanos (Date 2200 1 1 0 0 0 1) = 7258118400000000001"
    "offset (Date y m dd h mi s n) = 0" for y m dd h mi s n
    by (simp_all add: Date_def days_from_civil_def)
  have bounds: "snd (Signature_Serialize E (NewSignature a (Date 1970 1 1 0 0 0 1))) = None
   \<and> snd (Signature_Serialize E (NewSignature a (Date 2200 1 1 0 0 0 0))) = None
   \<and> \<not> Time_IsZero (Date 1970 1 1 0 0 0 0)
   \<and> snd (Signature_Serialize E (NewSignature a (Date 1970 1 1 0 0 0 0))) =
       Some (Errorf ''signature timestamp %s is out of bounds'' [ArgTime (Date 1970 1 1 0 0 0 0)])
   \<and> snd (Signature_Serialize E (NewSignature a (Date 2200 1 1 0 0 0 1))) =
       Some (Errorf ''signature timestamp %s is out of bounds'' [ArgTime (Date 2200 1 1 0 0 0 1)])"
    using main[of "NewSignature a (Date 1970 1 1 0 0 0 1)"]
      main[of "NewSignature a (Date 2200 1 1 0 0 0 0)"]
      main[of "NewSignature a (Date 1970 1 1 0 0 0 0)"]
      main[of "NewSignature a (Date 2200 1 1 0 0 0 1)"]
    by (simp add: NewSignature_def d nanos_bounds Time_IsZero_def Before_def After_def)
  have exact: "\<not> Before (timestamp sig) minAllowed \<and> \<not> After (timestamp sig) maxAllowed \<longrightarrow>
        sint (UnixNano (timestamp sig)) = nanos (timestamp sig)"
    using UnixNano_exact[of "timestamp sig"] by blast
  show ?thesis
    using main[of sig] accepted exact bounds by blast
qed

theorem Signature_Serialize_bounds_witness:
  "Signature_Serialize item_encoding (NewSignature Auditor_zero (Date 2010 1 2 3 4 5 123456789)) =
       ([IInt 1, IString ''/'', IInt64 1262401445123456789], None)
   \<and> sint (UnixNano (Date 2010 1 2 3 4 5 123456789)) = 1262401445123456789
   \<and> Signature_Serialize item_encoding (NewSignature Auditor_zero Time_zero) =
       ([IInt 1, IString ''/'', IInt64 0], None)
   \<and> Signature_Serialize item_encoding
         (NewSignature Auditor_zero \<lparr>nanos = 1262401445123456789, offset = 3600\<rparr>) =
       ([], Some (Errorf ''invalid signature timestamp: must be in zone with offset = 0, was %s (%d)''
                    [ArgString '''', ArgInt 3600]))
   \<and> snd (Signature_Serialize item_encoding
         (NewSignature Auditor_zero \<lparr>nanos = 1262401445123456789, offset = 3600\<rparr>)) \<noteq> None"
  using Signature_Serialize_bounds[where sig = "NewSignature Auditor_zero (Date 2010 1 2 3 4 5 123456789)" and E = item_encoding]
   Signature_Serialize_bounds[where sig = "NewSignature Auditor_zero Time_zero" and E = item_encoding]
   Signature_Serialize_bounds[where sig = "NewSignature Auditor_zero \<lparr>nanos = 1262401445123456789, offset = 3600\<rparr>" and E = item_encoding]
  by (simp add: NewSignature_def nanos_bounds Time_IsZero_def Before_def After_def Date_def days_from_civil_def
     item_encoding_def Encode_def Auditor_zero_def UnixNano_def Time_zero_def)

subsection \<open>C9: the signatures for a field\<close>

text \<open>
  C9 as stated, for every history and every field name: \<^verbatim>\<open>SignaturesForField(k)\<close> is a
  subsequence of \<^verbatim>\<open>Signatures()\<close>. On the empty history \<^verbatim>\<open>SignaturesForField\<close> returns the
  one zero signature that \<^verbatim>\<open>CreationSignature\<close> gives there, and \<^verbatim>\<open>Signatures\<close> returns
  no signature at all.
\<close>

theorem SignaturesForField_empty_history_counterexample:
  "SignaturesForField [] ''A'' = [Signature_zero] \<and> Signatures [] = []
   \<and> \<not> subseq (SignaturesForField [] ''A'') (Signatures [])"
  by (simp add: SignaturesForField_def Signatures_def CreationSignature_def)

text \<open>
  C9 as amended: for every non-empty history and every field name \<open>k\<close> that the first
  entry (the creation entry) does not mention, \<^verbatim>\<open>SignaturesForField(k)\<close> is the creation
  signature followed by the signatures of exactly the update entries (the entries after
  the first) that mention \<open>k\<close>, in the order of the history, it is a subsequence of
  \<^verbatim>\<open>Signatures()\<close>, and it begins with \<^verbatim>\<open>CreationSignature()\<close>.
\<close>

theorem SignaturesForField_update_entries:
  assumes "values \<noteq> []" and "\<not> mentions (fields' (hd values)) fieldName"
  shows "SignaturesForField values fieldName =
           CreationSignature values #
             map signature (filter (\<lambda>h. mentions (fields' h) fieldName) (tl values))
         \<and> subseq (SignaturesForField values fieldName) (Signatures values)
         \<and> hd (SignaturesForField values fieldName) = CreationSignature values"
proof -
  obtain h rest where v: "values = h # rest"
    using assms(1) by (cases "values") auto
  have eq: "SignaturesForField (h # rest) fieldName =
      signature h # map signature (filter (\<lambda>h. mentions (fields' h) fieldName) rest)"
    using assms(2) unfolding v
    by (simp add: SignaturesForField_def SignaturesForField_loop_filter CreationSignature_def)
  have "subseq (map signature (filter (\<lambda>h. mentions (fields' h) fieldName) rest)) (map signature rest)"
    by (intro subseq_map subseq_filter_left)
  then show ?thesis
    by (simp add: eq v CreationSignature_def Signatures_def)
qed

theorem SignaturesForField_update_entries_witness:
  "[creation_entry (sig_at 1),
    \<lparr>fields' = [\<lparr>Name = ''A'', Value = VString ''''\<rparr>, \<lparr>Name = ''B'', Value = VString ''''\<rparr>],
     signature = sig_at 2\<rparr>,
    \<lparr>fields' = [\<lparr>Name = ''A'', Value = VString ''''\<rparr>], signature = sig_at 3\<rparr>] \<noteq> []
   \<and> \<not> mentions (fields' (hd [creation_entry (sig_at 1),
    \<lparr>fields' = [\<lparr>Name = ''A'', Value = VString ''''\<rparr>, \<lparr>Name = ''B'', Value = VString ''''\<rparr>],
     signature = sig_at 2\<rparr>,
    \<lparr>fields' = [\<lparr>Name = ''A'', Value = VString ''''\<rparr>], signature = sig_at 3\<rparr>])) ''B''
   \<and> SignaturesForField [creation_entry (sig_at 1),
    \<lparr>fields' = [\<lparr>Name = ''A'', Value = VString ''''\<rparr>, \<lparr>Name = ''B'', Value = VString ''''\<rparr>],
     signature = sig_at 2\<rparr>,
    \<lparr>fields' = [\<lparr>Name = ''A'', Value = VString ''''\<rparr>], signature = sig_at 3\<rparr>] ''B''
     = [sig_at 1, sig_at 2]"
  using SignaturesForField_update_entries[of "[creation_entry (sig_at 1),
    \<lparr>fields' = [\<lparr>Name = ''A'', Value = VString ''''\<rparr>, \<lparr>Name = ''B'', Value = VString ''''\<rparr>],
     signature = sig_at 2\<rparr>,
    \<lparr>fields' = [\<lparr>Name = ''A'', Value = VString ''''\<rparr>], signature = sig_at 3\<rparr>]" "''B''"]
  by (simp add: CreationSignature_def creation_entry_def)

subsection \<open>C10: a failed Audit leaves the history alone\<close>

text \<open>
  C10: whenever \<^verbatim>\<open>Audit\<close> returns an error, \<^verbatim>\<open>changed\<close> is false and the history is
  what it was before the call; the history differs after a call only when the call
  returned \<^verbatim>\<open>(true, nil)\<close>, and then by one entry appended, signed with the call's
  signature. The errors of \<^verbatim>\<open>GetFields\<close> come back as they are: from the old object
  once the two checks on the history pass, from the new object once the old one is
  absent on an empty history or live.
\<close>

theorem Audit_failure_leaves_history:
  "(fst (Audit vals oldObj newObj sig) = Return (changed, Some err) \<longrightarrow>
      snd (Audit vals oldObj newObj sig) = vals \<and> \<not> changed)
   \<and> (snd (Audit vals oldObj newObj sig) \<noteq> vals \<longrightarrow>
      fst (Audit vals oldObj newObj sig) = Return (True, None)
      \<and> (\<exists>fs. fs \<noteq> [] \<and> snd (Audit vals oldObj newObj sig) = vals @ [\<lparr>fields' = fs, signature = sig\<rparr>]))
   \<and> ((vals = [] \<or> After (timestamp sig) (timestamp (signature (last vals))))
       \<and> oldObj = Some old \<and> obj_getErr old = Some e \<longrightarrow>
      Audit vals oldObj newObj sig = (Return (False, Some e), vals))
   \<and> ((vals = [] \<or> After (timestamp sig) (timestamp (signature (last vals))))
       \<and> oldObj = Some old \<and> obj_getErr old = None \<and> Time_IsZero (obj_tRollback old)
       \<and> newObj = Some new \<and> obj_getErr new = Some e \<longrightarrow>
      Audit vals oldObj newObj sig = (Return (False, Some e), vals))"
proof -
  have "(vals = [] \<or> After (timestamp sig) (timestamp (signature (last vals))))
       \<and> oldObj = Some old \<and> obj_getErr old = Some e \<longrightarrow>
      Audit vals oldObj newObj sig = (Return (False, Some e), vals)"
    by (auto simp: Audit_def GetFields_def)
  moreover have "(vals = [] \<or> After (timestamp sig) (timestamp (signature (last vals))))
       \<and> oldObj = Some old \<and> obj_getErr old = None \<and> Time_IsZero (obj_tRollback old)
       \<and> newObj = Some new \<and> obj_getErr new = Some e \<longrightarrow>
      Audit vals oldObj newObj sig = (Return (False, Some e), vals)"
    by (auto simp: Audit_def GetFields_def)
  ultimately show ?thesis
    using Audit_outcome[of vals oldObj newObj sig] by auto
qed

theorem Audit_failure_leaves_history_witness:
  "fst (Audit [creation_entry (sig_at 5)] None (Some (live_object (Some []))) (sig_at 9)) =
     Return (False, Some (Errorf
        ''oldObj cannot be nil when there is an audit history. Only allowed on initial audit'' []))
   \<and> snd (Audit [creation_entry (sig_at 5)] None (Some (live_object (Some []))) (sig_at 9)) =
       [creation_entry (sig_at 5)]
   \<and> snd (Audit [] None (Some (live_object (Some []))) (sig_at 9)) \<noteq> []
   \<and> fst (Audit [] None (Some (live_object (Some []))) (sig_at 9)) = Return (True, None)
   \<and> Audit [creation_entry (sig_at 5)]
        (Some ((live_object (Some []))\<lparr>obj_getErr := Some (ExternalError ''no fields'')\<rparr>))
        (Some (live_object (Some []))) (sig_at 9) =
       (Return (False, Some (ExternalError ''no fields'')), [creation_entry (sig_at 5)])
   \<and> Audit [creation_entry (sig_at 5)] (Some (live_object (Some [])))
        (Some ((live_object (Some []))\<lparr>obj_getErr := Some (ExternalError ''no fields'')\<rparr>)) (sig_at 9) =
       (Return (False, Some (ExternalError ''no fields'')), [creation_entry (sig_at 5)])"
  using
    Audit_failure_leaves_history[where vals = "[creation_entry (sig_at 5)]" and oldObj = None
      and newObj = "Some (live_object (Some []))" and sig = "sig_at 9" and changed = False
      and err = "Errorf ''oldObj cannot be nil when there is an audit history. Only allowed on initial audit'' []"]
    Audit_failure_leaves_history[where vals = "[]" and oldObj = None
      and newObj = "Some (live_object (Some []))" and sig = "sig_at 9"]
    Audit_failure_leaves_history[where vals = "[creation_entry (sig_at 5)]" and sig = "sig_at 9"
      and oldObj = "Some ((live_object (Some []))\<lparr>obj_getErr := Some (ExternalError ''no fields'')\<rparr>)"
      and old = "(live_object (Some []))\<lparr>obj_getErr := Some (ExternalError ''no fields'')\<rparr>"
      and e = "ExternalError ''no fields''" and newObj = "Some (live_object (Some []))"]
    Audit_failure_leaves_history[where vals = "[creation_entry (sig_at 5)]" and sig = "sig_at 9"
      and oldObj = "Some (live_object (Some []))" and old = "live_object (Some [])"
      and e = "ExternalError ''no fields''"
      and newObj = "Some ((live_object (Some []))\<lparr>obj_getErr := Some (ExternalError ''no fields'')\<rparr>)"
      and new = "(live_object (Some []))\<lparr>obj_getErr := Some (ExternalError ''no fields'')\<rparr>"]
  by (simp add: creation_entry_def sig_at_def NewSignature_def at_nanos_def live_object_def
      After_def Time_IsZero_def Audit_def GetFields_def getHistoryFields_def addHistory_def)

end
